theory Spec2Isabelle
  imports Complex_Main "HOL-Library.AList" "HOL-Library.Sublist"
begin

section \<open>JavaScript values, errors and the outside world\<close>

text \<open>
  The executor handles values of type \<^verbatim>\<open>any\<close>. Only their truthiness matters to the
  code (\<^verbatim>\<open>if (cached)\<close>, \<^verbatim>\<open>&& result\<close>), so a value is one of the JavaScript
  shapes below. Numbers are restricted to the integers and \<^verbatim>\<open>NaN\<close>. Arrays and objects
  are truthy even when empty.
\<close>

datatype jsval =
    JUndefined
  | JNull
  | JBool bool
  | JNum int
  | JNaN
  | JStr string
  | JArr "jsval list"
  | JObj "(string \<times> jsval) list"

fun truthy :: "jsval \<Rightarrow> bool" where
  "truthy JUndefined = False"
| "truthy JNull = False"
| "truthy (JBool b) = b"
| "truthy (JNum n) = (n \<noteq> 0)"
| "truthy JNaN = False"
| "truthy (JStr s) = (s \<noteq> [])"
| "truthy (JArr xs) = True"
| "truthy (JObj fs) = True"

text \<open>
  An \<^verbatim>\<open>Error\<close> object made by \<^verbatim>\<open>new Error(m)\<close>, as far as anything looks at it: its
  name and its message. The \<^verbatim>\<open>TypeError\<close> that the engine throws when a property of
  \<^verbatim>\<open>undefined\<close> or \<^verbatim>\<open>null\<close> is read is kept by its name (the wording of its
  message is the engine's).
\<close>

definition new_Error :: "string \<Rightarrow> jsval" where
  "new_Error m = JObj [(''name'', JStr ''Error''), (''message'', JStr m)]"

definition TypeError :: jsval where
  "TypeError = JObj [(''name'', JStr ''TypeError'')]"

text \<open>
  The world outside the two classes: the reading of \<^verbatim>\<open>Date.now()\<close> (milliseconds) and
  the number of requests the remote service has received so far. Remote calls are
  functions on the world; they may advance the clock and count themselves.
\<close>

record world =
  date_now :: int
  requests :: nat

section \<open>RobustSupabaseClient: the resilient operation executor\<close>

text \<open>
  \<^verbatim>\<open>private cache = new Map<string, { data: any; timestamp: number }>()\<close> is an
  association list in insertion order with distinct keys: \<^verbatim>\<open>Map.set\<close> is
  \<^const>\<open>AList.update\<close> (replace in place, or append), \<^verbatim>\<open>Map.get\<close> is
  \<^const>\<open>map_of\<close>, \<^verbatim>\<open>Map.delete\<close> is \<^const>\<open>AList.delete\<close>.
  The class declares \<^verbatim>\<open>client\<close>, \<^verbatim>\<open>cache\<close> and \<^verbatim>\<open>CACHE_TTL\<close> only;
  the wrapped client plays no part in \<^verbatim>\<open>executeWithFallback\<close>.
\<close>

record CacheEntry =
  data :: jsval
  timestamp :: int

record RobustSupabaseClient =
  cache :: "(string \<times> CacheEntry) list"

definition CACHE_TTL :: int where
  "CACHE_TTL = 5 * 60 * 1000"

definition constructor :: RobustSupabaseClient where
  "constructor = \<lparr>cache = []\<rparr>"

text \<open>
  \<^verbatim>\<open>Promise.race([operation(), new Promise((_, reject) => setTimeout(..., this.timeout))])\<close>.
  Which of the two promises settles first is decided by the runtime. Calling the
  operation and awaiting the race is therefore a function of the world that reports what
  the race observed first, and the world after the wait. A promise may reject with any
  value, so a rejection carries a \<^typ>\<open>jsval\<close>.
\<close>

datatype race_input =
    Resolves jsval
  | Rejects jsval
  | TimerFires

type_synonym operation = "world \<Rightarrow> race_input \<times> world"

definition promise_race :: "race_input \<Rightarrow> jsval + jsval" where
  "promise_race r =
     (case r of
        Resolves v \<Rightarrow> Inr v
      | Rejects e \<Rightarrow> Inl e
      | TimerFires \<Rightarrow> Inl (new_Error ''Operation timeout''))"

text \<open>
  The delay handed to \<^verbatim>\<open>setTimeout\<close> is \<^verbatim>\<open>this.timeout\<close>. The class declares
  \<^verbatim>\<open>client\<close>, \<^verbatim>\<open>cache\<close> and \<^verbatim>\<open>CACHE_TTL\<close>, and neither its constructor nor any
  method assigns a \<^verbatim>\<open>timeout\<close>: on every instance the read yields \<^verbatim>\<open>undefined\<close>.
\<close>

definition this_timeout :: "RobustSupabaseClient \<Rightarrow> jsval" where
  "this_timeout c = JUndefined"

text \<open>
  The delay in milliseconds that Node.js gives a timer: the argument converted to a
  number and truncated, and 1 when that is \<^verbatim>\<open>NaN\<close>, below 1 or above \<open>2\<^sup>3\<^sup>1 - 1\<close>
  (\<^verbatim>\<open>undefined\<close> converts to \<^verbatim>\<open>NaN\<close>, \<^verbatim>\<open>null\<close> and \<^verbatim>\<open>false\<close> to 0,
  \<^verbatim>\<open>true\<close> to 1). The conversion of strings, arrays and objects is not modelled.
\<close>

fun setTimeout_delay :: "jsval \<Rightarrow> nat option" where
  "setTimeout_delay JUndefined = Some 1"
| "setTimeout_delay JNaN = Some 1"
| "setTimeout_delay JNull = Some 1"
| "setTimeout_delay (JBool b) = Some 1"
| "setTimeout_delay (JNum n) = Some (if 1 \<le> n \<and> n \<le> 2147483647 then nat n else 1)"
| "setTimeout_delay (JStr s) = None"
| "setTimeout_delay (JArr xs) = None"
| "setTimeout_delay (JObj fs) = None"

definition saveToCache ::
  "string \<Rightarrow> jsval \<Rightarrow> RobustSupabaseClient \<Rightarrow> world \<Rightarrow> RobustSupabaseClient" where
  "saveToCache key d c w =
     c\<lparr>cache := AList.update key \<lparr>data = d, timestamp = date_now w\<rparr> (cache c)\<rparr>"

definition getFromCache ::
  "RobustSupabaseClient \<Rightarrow> string \<Rightarrow> bool \<Rightarrow> world \<Rightarrow> jsval" where
  "getFromCache c key ignoreTTL w =
     (case map_of (cache c) key of
        None \<Rightarrow> JNull
      | Some cached \<Rightarrow>
          (let isExpired = (date_now w - timestamp cached > CACHE_TTL)
           in if isExpired \<and> \<not> ignoreTTL then JNull else data cached))"

text \<open>
  The guard \<^verbatim>\<open>useCache && cacheKey\<close>: the optional key counts only when it is a
  non-empty string (the empty string is falsy).
\<close>

fun caching :: "bool \<Rightarrow> string option \<Rightarrow> string option" where
  "caching useCache None = None"
| "caching useCache (Some key) = (if useCache \<and> key \<noteq> [] then Some key else None)"

text \<open>
  The catch block starts with \<^verbatim>\<open>console.warn(..., error.message)\<close>. Reading a property
  of \<^verbatim>\<open>undefined\<close> or \<^verbatim>\<open>null\<close> throws a \<^verbatim>\<open>TypeError\<close>; on every other value the
  read yields a value, which only goes to the log.
\<close>

definition message_read_throws :: "jsval \<Rightarrow> bool" where
  "message_read_throws error \<longleftrightarrow> error = JUndefined \<or> error = JNull"

text \<open>
  \<^verbatim>\<open>executeWithFallback(operation, cacheKey?, useCache)\<close> returns the promise's
  settlement (\<open>Inl\<close> the value it rejects with), the instance afterwards and the world
  afterwards. One call is modelled in isolation: no other task writes the cache during
  the wait.
\<close>

definition executeWithFallback ::
  "RobustSupabaseClient \<Rightarrow> operation \<Rightarrow> string option \<Rightarrow> bool \<Rightarrow> world
     \<Rightarrow> (jsval + jsval) \<times> RobustSupabaseClient \<times> world" where
  "executeWithFallback c operation cacheKey useCache w =
     (let cached = (case caching useCache cacheKey of
                      Some key \<Rightarrow> getFromCache c key False w
                    | None \<Rightarrow> JNull)
      in if truthy cached then (Inr cached, c, w)
         else
           (case operation w of
              (settled, w') \<Rightarrow>
                (case promise_race settled of
                   Inr result \<Rightarrow>
                     (case caching useCache cacheKey of
                        Some key \<Rightarrow>
                          if truthy result
                          then (Inr result, saveToCache key result c w', w')
                          else (Inr result, c, w')
                      | None \<Rightarrow> (Inr result, c, w'))
                 | Inl error \<Rightarrow>
                     if message_read_throws error then (Inl TypeError, c, w')
                     else
                       (let stale = (case caching useCache cacheKey of
                                       Some key \<Rightarrow> getFromCache c key True w'
                                     | None \<Rightarrow> JNull)
                        in if truthy stale then (Inr stale, c, w')
                           else (Inl error, c, w')))))"

text \<open>
  \<^verbatim>\<open>clearExpiredCache\<close>: the loop over \<^verbatim>\<open>this.cache.entries()\<close>, deleting by key.
  Deleting the entry under the iterator does not disturb the iteration, so the loop
  visits the entries present at its start.
\<close>

fun sweep :: "int \<Rightarrow> (string \<times> CacheEntry) list \<Rightarrow> (string \<times> CacheEntry) list
                \<Rightarrow> (string \<times> CacheEntry) list" where
  "sweep now [] m = m"
| "sweep now ((key, v) # entries) m =
     sweep now entries (if now - timestamp v > CACHE_TTL then AList.delete key m else m)"

definition clearExpiredCache :: "RobustSupabaseClient \<Rightarrow> world \<Rightarrow> RobustSupabaseClient" where
  "clearExpiredCache c w = c\<lparr>cache := sweep (date_now w) (cache c) (cache c)\<rparr>"

text \<open>
  What holds of every cache the class can build: keys are distinct (it is a
  \<^verbatim>\<open>Map\<close>), and since \<^verbatim>\<open>saveToCache\<close> is private and called only under
  \<^verbatim>\<open>useCache && cacheKey && result\<close>, keys are non-empty and stored data is truthy.
\<close>

definition cache_inv :: "RobustSupabaseClient \<Rightarrow> bool" where
  "cache_inv c \<longleftrightarrow>
     distinct (map fst (cache c)) \<and>
     (\<forall>(key, e) \<in> set (cache c). key \<noteq> [] \<and> truthy (data e))"

text \<open>
  The cache entry that the fallback of \<^verbatim>\<open>executeWithFallback\<close> can serve: the one
  stored under the key, when \<^verbatim>\<open>useCache && cacheKey\<close> holds.
\<close>

definition fallback_entry ::
  "RobustSupabaseClient \<Rightarrow> string option \<Rightarrow> bool \<Rightarrow> CacheEntry option" where
  "fallback_entry c cacheKey useCache =
     (case caching useCache cacheKey of Some key \<Rightarrow> map_of (cache c) key | None \<Rightarrow> None)"

section \<open>SupabaseConnectionManager: the connection configuration prober\<close>

record ConnectionAttempt =
  success :: bool
  latency :: int
  error :: "string option"

text \<open>
  The options object handed to \<^verbatim>\<open>createClient\<close>. \<open>fetch_timeout\<close> is the argument of
  \<^verbatim>\<open>createTimeoutFetch\<close>, absent where the configuration sets no \<^verbatim>\<open>fetch\<close>.
\<close>

record client_options =
  autoRefreshToken :: bool
  persistSession :: bool
  headers :: "(string \<times> string) list"
  fetch_timeout :: "nat option"

record SupabaseConnectionManager =
  connectionHistory :: "ConnectionAttempt list"
  lastSuccessfulConfig :: "client_options option"

definition getInstance :: SupabaseConnectionManager where
  "getInstance = \<lparr>connectionHistory = [], lastSuccessfulConfig = None\<rparr>"

definition configurations :: "(string \<times> client_options) list" where
  "configurations =
     [(''Fast timeout'',
        \<lparr>autoRefreshToken = False, persistSession = False,
         headers = [(''Connection'', ''close'')], fetch_timeout = Some 5000\<rparr>),
      (''Medium timeout with keep-alive'',
        \<lparr>autoRefreshToken = False, persistSession = False,
         headers = [(''Connection'', ''keep-alive'')], fetch_timeout = Some 10000\<rparr>),
      (''Long timeout basic'',
        \<lparr>autoRefreshToken = False, persistSession = False,
         headers = [], fetch_timeout = Some 20000\<rparr>),
      (''Default configuration'',
        \<lparr>autoRefreshToken = False, persistSession = False,
         headers = [], fetch_timeout = None\<rparr>)]"

text \<open>
  The library \<^verbatim>\<open>@supabase/supabase-js\<close> is outside the repository and is a parameter:
  \<^verbatim>\<open>createClient\<close> builds a client or throws, and
  \<^verbatim>\<open>client.auth.admin.listUsers({ page: 1, perPage: 1 })\<close> either answers with an
  object whose \<^verbatim>\<open>error\<close> field is null or an error, or throws; it acts on the world.
  The awaited request is taken to settle.
\<close>

text \<open>
  What the library throws or reports in the \<^verbatim>\<open>error\<close> field: an error object
  (\<^verbatim>\<open>AuthError\<close>, the errors of \<^verbatim>\<open>fetch\<close>), which always carries a message.
\<close>

datatype js_error = Error (message: string)

datatype list_users_result =
    Responds "js_error option"
  | Throws js_error

record 'c supabase_js =
  createClient :: "string \<Rightarrow> string \<Rightarrow> client_options \<Rightarrow> js_error + 'c"
  listUsers :: "'c \<Rightarrow> world \<Rightarrow> list_users_result \<times> world"

text \<open>\<^verbatim>\<open>s.includes(pat)\<close>: \<open>pat\<close> occurs in \<open>s\<close> as a contiguous substring.\<close>

fun str_includes :: "string \<Rightarrow> string \<Rightarrow> bool" where
  "str_includes [] pat = (pat = [])"
| "str_includes (c # cs) pat = (prefix pat (c # cs) \<or> str_includes cs pat)"

definition recordAttempt ::
  "bool \<Rightarrow> int \<Rightarrow> string option \<Rightarrow> SupabaseConnectionManager \<Rightarrow> SupabaseConnectionManager" where
  "recordAttempt ok lat err s =
     (let pushed = connectionHistory s @ [\<lparr>success = ok, latency = lat, error = err\<rparr>]
      in s\<lparr>connectionHistory := (if length pushed > 10 then tl pushed else pushed)\<rparr>)"

definition testConnection ::
  "'c supabase_js \<Rightarrow> 'c \<Rightarrow> SupabaseConnectionManager \<Rightarrow> world
     \<Rightarrow> (js_error + unit) \<times> SupabaseConnectionManager \<times> world" where
  "testConnection sdk client s w =
     (let startTime = date_now w
      in case listUsers sdk client w of
           (Throws e, w') \<Rightarrow> (Inl e, s, w')
         | (Responds err, w') \<Rightarrow>
             (let lat = date_now w' - startTime
              in case err of
                   Some e \<Rightarrow>
                     if \<not> str_includes (message e) ''No users''
                     then (Inl e, s, w')
                     else (Inr (), recordAttempt True lat None s, w')
                 | None \<Rightarrow> (Inr (), recordAttempt True lat None s, w')))"

text \<open>
  The message of the final \<^verbatim>\<open>throw new Error(...)\<close> of \<^verbatim>\<open>getWorkingClient\<close>, as its
  UTF-8 bytes (a cross mark, then the Portuguese sentence with its accented letters).
\<close>

definition all_failed_message :: string where
  "all_failed_message =
     [CHR 0xE2, CHR 0x9D, CHR 0x8C] @ '' Todas as configura'' @
     [CHR 0xC3, CHR 0xA7, CHR 0xC3, CHR 0xB5] @ ''es de conex'' @
     [CHR 0xC3, CHR 0xA3] @ ''o falharam''"

text \<open>The loop \<^verbatim>\<open>for (const { name, config } of configurations)\<close> and what follows it.\<close>

fun try_configurations ::
  "'c supabase_js \<Rightarrow> string \<Rightarrow> string \<Rightarrow> (string \<times> client_options) list
     \<Rightarrow> SupabaseConnectionManager \<Rightarrow> world
     \<Rightarrow> (js_error + 'c) \<times> SupabaseConnectionManager \<times> world" where
  "try_configurations sdk url serviceKey [] s w = (Inl (Error all_failed_message), s, w)"
| "try_configurations sdk url serviceKey ((name, config) # rest) s w =
     (case createClient sdk url serviceKey config of
        Inl e \<Rightarrow>
          try_configurations sdk url serviceKey rest
            (recordAttempt False 0 (Some (message e)) s) w
      | Inr client \<Rightarrow>
          (case testConnection sdk client s w of
             (Inr u, s', w') \<Rightarrow> (Inr client, s'\<lparr>lastSuccessfulConfig := Some config\<rparr>, w')
           | (Inl e, s', w') \<Rightarrow>
               try_configurations sdk url serviceKey rest
                 (recordAttempt False 0 (Some (message e)) s') w'))"

definition getWorkingClient ::
  "'c supabase_js \<Rightarrow> string \<Rightarrow> string \<Rightarrow> SupabaseConnectionManager \<Rightarrow> world
     \<Rightarrow> (js_error + 'c) \<times> SupabaseConnectionManager \<times> world" where
  "getWorkingClient sdk url serviceKey s w =
     (case lastSuccessfulConfig s of
        Some remembered \<Rightarrow>
          (case createClient sdk url serviceKey remembered of
             Inl e \<Rightarrow> try_configurations sdk url serviceKey configurations s w
           | Inr client \<Rightarrow>
               (case testConnection sdk client s w of
                  (Inr u, s', w') \<Rightarrow> (Inr client, s', w')
                | (Inl e, s', w') \<Rightarrow>
                    try_configurations sdk url serviceKey configurations s' w'))
      | None \<Rightarrow> try_configurations sdk url serviceKey configurations s w)"

subsection \<open>Statistics\<close>

text \<open>
  JavaScript numbers are IEEE 754 doubles. A finite double is held as the rational
  number it denotes; besides there are \<^verbatim>\<open>NaN\<close> and the two infinities that a division by
  zero produces.
\<close>

datatype js_number = Num rat | NaN | PosInfinity | NegInfinity

text \<open>
  Rounding to the nearest double, ties to the even significand: a positive \<open>x\<close> lies
  in \<open>[2\<^sup>e, 2\<^sup>e\<^sup>+\<^sup>1)\<close> for its binary exponent \<open>e\<close>, the doubles of that binade are
  the multiples of \<open>2\<^sup>e\<^sup>-\<^sup>5\<^sup>2\<close>, and \<open>x\<close> goes to the nearest of them. Overflow and
  subnormal numbers are not modelled: the ratios and percentages of a history are far
  from both.
\<close>

function binary_exponent :: "rat \<Rightarrow> int" where
  "binary_exponent x =
     (if x \<le> 0 then 0
      else if 2 \<le> x then binary_exponent (x / 2) + 1
      else if x < 1 then binary_exponent (x * 2) - 1
      else 0)"
  by pat_completeness auto
termination
proof (relation "measure (\<lambda>x. if 1 \<le> x then nat \<lfloor>x\<rfloor> else 1 + nat \<lfloor>1 / x\<rfloor>)")
  show "wf (measure (\<lambda>x :: rat. if 1 \<le> x then nat \<lfloor>x\<rfloor> else 1 + nat \<lfloor>1 / x\<rfloor>))"
    by simp
next
  fix x :: rat
  assume "\<not> x \<le> 0" "2 \<le> x"
  then have "\<lfloor>x / 2\<rfloor> < \<lfloor>x\<rfloor>" "0 < \<lfloor>x\<rfloor>"
    by linarith+
  with \<open>2 \<le> x\<close> show "(x / 2, x) \<in> measure (\<lambda>x. if 1 \<le> x then nat \<lfloor>x\<rfloor> else 1 + nat \<lfloor>1 / x\<rfloor>)"
    by simp
next
  fix x :: rat
  assume pos: "\<not> x \<le> 0" and "\<not> 2 \<le> x" and small: "x < 1"
  from pos small have inv: "1 < 1 / x"
    by (simp add: field_simps)
  show "(x * 2, x) \<in> measure (\<lambda>x. if 1 \<le> x then nat \<lfloor>x\<rfloor> else 1 + nat \<lfloor>1 / x\<rfloor>)"
  proof (cases "1 \<le> x * 2")
    case True
    with small have "\<lfloor>x * 2\<rfloor> = 1"
      by linarith
    moreover from inv have "1 \<le> \<lfloor>1 / x\<rfloor>"
      by linarith
    ultimately show ?thesis
      using True small by simp
  next
    case False
    with pos have "2 < 1 / x"
      by (simp add: field_simps)
    moreover have "1 / (x * 2) = (1 / x) / 2"
      by simp
    ultimately have "\<lfloor>1 / (x * 2)\<rfloor> < \<lfloor>1 / x\<rfloor>" "0 < \<lfloor>1 / x\<rfloor>"
      by linarith+
    with False small show ?thesis
      by simp
  qed
qed

declare binary_exponent.simps [simp del]

definition pow2 :: "int \<Rightarrow> rat" where
  "pow2 e = (if 0 \<le> e then 2 ^ nat e else 1 / 2 ^ nat (- e))"

definition round_ties_even :: "rat \<Rightarrow> int" where
  "round_ties_even m =
     (let f = \<lfloor>m\<rfloor>; d = m - of_int f
      in if d < 1 / 2 then f
         else if 1 / 2 < d then f + 1
         else if even f then f else f + 1)"

definition to_double :: "rat \<Rightarrow> rat" where
  "to_double x =
     (if x = 0 then 0
      else (let ulp = pow2 (binary_exponent \<bar>x\<bar> - 52)
            in sgn x * of_int (round_ties_even (\<bar>x\<bar> / ulp)) * ulp))"

text \<open>Division and multiplication of doubles: the exact result, rounded.\<close>

definition double_divide :: "rat \<Rightarrow> rat \<Rightarrow> js_number" where
  "double_divide x y =
     (if y \<noteq> 0 then Num (to_double (x / y))
      else if x = 0 then NaN
      else if x > 0 then PosInfinity else NegInfinity)"

definition double_times :: "js_number \<Rightarrow> rat \<Rightarrow> js_number" where
  "double_times n q =
     (case n of
        Num a \<Rightarrow> Num (to_double (a * q))
      | NaN \<Rightarrow> NaN
      | PosInfinity \<Rightarrow> (if q > 0 then PosInfinity else if q < 0 then NegInfinity else NaN)
      | NegInfinity \<Rightarrow> (if q > 0 then NegInfinity else if q < 0 then PosInfinity else NaN))"

text \<open>\<^verbatim>\<open>x || 0\<close> on numbers: \<^verbatim>\<open>0\<close> and \<^verbatim>\<open>NaN\<close> are falsy.\<close>

definition or_zero :: "js_number \<Rightarrow> js_number" where
  "or_zero n = (case n of Num q \<Rightarrow> (if q = 0 then Num 0 else Num q) | NaN \<Rightarrow> Num 0 | _ \<Rightarrow> n)"

text \<open>\<^verbatim>\<open>Math.round\<close>: the nearest integer, halves rounded up.\<close>

definition Math_round :: "js_number \<Rightarrow> js_number" where
  "Math_round n = (case n of Num q \<Rightarrow> Num (of_int \<lfloor>q + 1 / 2\<rfloor>) | _ \<Rightarrow> n)"

record connection_stats =
  total :: nat
  successful :: nat
  successRate :: js_number
  averageLatency :: js_number

text \<open>
  Latencies are whole milliseconds (differences of \<^verbatim>\<open>Date.now()\<close>, or 0); their sum
  is taken exactly, as sums of integers below \<open>2\<^sup>5\<^sup>3\<close> are in doubles.
\<close>

definition getConnectionStats :: "SupabaseConnectionManager \<Rightarrow> connection_stats" where
  "getConnectionStats s =
     (let n_total = length (connectionHistory s);
          n_successful = length (filter success (connectionHistory s));
          avgLatency =
            or_zero (double_divide
              (of_int (foldl (\<lambda>sum a. sum + latency a) 0 (filter success (connectionHistory s))))
              (of_nat n_successful))
      in \<lparr>total = n_total,
          successful = n_successful,
          successRate =
            (if n_total > 0
             then double_times (double_divide (of_nat n_successful) (of_nat n_total)) 100
             else Num 0),
          averageLatency = Math_round avgLatency\<rparr>)"

subsection \<open>Vocabulary of the properties\<close>

text \<open>
  A probe passes on the answers that \<^verbatim>\<open>testConnection\<close> accepts: no error, or an error
  whose message contains \<^verbatim>\<open>No users\<close> (the remote service's empty result).
\<close>

definition probe_passes :: "list_users_result \<Rightarrow> bool" where
  "probe_passes r =
     (case r of
        Throws e \<Rightarrow> False
      | Responds None \<Rightarrow> True
      | Responds (Some e) \<Rightarrow> str_includes (message e) ''No users'')"

text \<open>
  Every candidate of the list, tried in order, fails: its client cannot be built, or its
  probe does not pass in the world that the earlier probes have left.
\<close>

fun candidates_fail ::
  "'c supabase_js \<Rightarrow> string \<Rightarrow> string \<Rightarrow> (string \<times> client_options) list \<Rightarrow> world \<Rightarrow> bool" where
  "candidates_fail sdk url serviceKey [] w = True"
| "candidates_fail sdk url serviceKey ((name, config) # rest) w =
     (case createClient sdk url serviceKey config of
        Inl e \<Rightarrow> candidates_fail sdk url serviceKey rest w
      | Inr client \<Rightarrow>
          \<not> probe_passes (fst (listUsers sdk client w)) \<and>
          candidates_fail sdk url serviceKey rest (snd (listUsers sdk client w)))"

text \<open>
  The call reaches the candidate loop in world \<open>w1\<close>: there is no remembered
  configuration, or the attempt with it fails.
\<close>

definition reaches_candidates ::
  "'c supabase_js \<Rightarrow> string \<Rightarrow> string \<Rightarrow> SupabaseConnectionManager \<Rightarrow> world \<Rightarrow> world \<Rightarrow> bool" where
  "reaches_candidates sdk url serviceKey s w w1 =
     (case lastSuccessfulConfig s of
        None \<Rightarrow> w1 = w
      | Some remembered \<Rightarrow>
          (case createClient sdk url serviceKey remembered of
             Inl e \<Rightarrow> w1 = w
           | Inr client \<Rightarrow>
               \<not> probe_passes (fst (listUsers sdk client w)) \<and>
               w1 = snd (listUsers sdk client w)))"

section \<open>Concrete runs\<close>

text \<open>Worlds and operations used to run the definitions on explicit inputs.\<close>

definition world_at :: "int \<Rightarrow> world" where
  "world_at t = \<lparr>date_now = t, requests = 0\<rparr>"

definition served :: "int \<Rightarrow> world \<Rightarrow> world" where
  "served ms w = w\<lparr>date_now := date_now w + ms, requests := Suc (requests w)\<rparr>"

definition resolving :: "jsval \<Rightarrow> operation" where
  "resolving v w = (Resolves v, served 20 w)"

definition rejecting :: "jsval \<Rightarrow> operation" where
  "rejecting e w = (Rejects e, served 20 w)"

text \<open>
  An operation that settles \<open>ms\<close> milliseconds after it is called, in a race whose
  timer is set to \<open>delay\<close> milliseconds: the race sees the timer first when the delay is
  the shorter of the two.
\<close>

definition settling_after :: "nat \<Rightarrow> race_input \<Rightarrow> nat \<Rightarrow> operation" where
  "settling_after ms settled delay w =
     (if delay < ms then (TimerFires, served (int delay) w) else (settled, served (int ms) w))"

definition timing_out :: operation where
  "timing_out w = (TimerFires, served 1 w)"

definition alice :: jsval where
  "alice = JObj [(''id'', JStr ''u1''), (''email'', JStr ''alice@example.com'')]"

definition stale_client :: RobustSupabaseClient where
  "stale_client = \<lparr>cache = [(''user_u1'', \<lparr>data = alice, timestamp = 1000\<rparr>)]\<rparr>"

definition two_entry_client :: RobustSupabaseClient where
  "two_entry_client =
     \<lparr>cache = [(''user_u1'', \<lparr>data = alice, timestamp = 1000\<rparr>),
               (''user_u2'', \<lparr>data = JStr ''bob'', timestamp = 200000\<rparr>)]\<rparr>"

text \<open>
  Stand-ins for the library: a \<^verbatim>\<open>createClient\<close> that always builds (the client is its
  options), and services that are unreachable, healthy, empty, or refuse the key. Each
  request takes some milliseconds and is counted.
\<close>

definition build :: "string \<Rightarrow> string \<Rightarrow> client_options \<Rightarrow> js_error + client_options" where
  "build url serviceKey config = Inr config"

definition answering :: "list_users_result \<Rightarrow> int \<Rightarrow> client_options supabase_js" where
  "answering r ms = \<lparr>createClient = build, listUsers = (\<lambda>client w. (r, served ms w))\<rparr>"

definition offline :: "client_options supabase_js" where
  "offline = answering (Throws (Error ''fetch failed'')) 5"

definition online :: "client_options supabase_js" where
  "online = answering (Responds None) 30"

definition empty_project :: "client_options supabase_js" where
  "empty_project = answering (Responds (Some (Error ''No users found''))) 30"

definition refusing :: "client_options supabase_js" where
  "refusing = answering (Responds (Some (Error ''Invalid API key''))) 30"

definition keep_alive_options :: client_options where
  "keep_alive_options =
     \<lparr>autoRefreshToken = False, persistSession = False,
      headers = [(''Connection'', ''keep-alive'')], fetch_timeout = Some 10000\<rparr>"

definition remembering :: SupabaseConnectionManager where
  "remembering = \<lparr>connectionHistory = [], lastSuccessfulConfig = Some keep_alive_options\<rparr>"

definition sample_history :: SupabaseConnectionManager where
  "sample_history =
     \<lparr>connectionHistory =
        [\<lparr>success = True, latency = 10, error = None\<rparr>,
         \<lparr>success = False, latency = 0, error = Some ''fetch failed''\<rparr>,
         \<lparr>success = True, latency = 15, error = None\<rparr>],
      lastSuccessfulConfig = Some keep_alive_options\<rparr>"

section \<open>Properties of the executor\<close>

subsection \<open>Auxiliary facts\<close>

lemma sweep_filter:
  "sweep now es m =
     filter (\<lambda>p. \<forall>e'. (fst p, e') \<in> set es \<longrightarrow> \<not> now - timestamp e' > CACHE_TTL) m"
proof (induction es arbitrary: m)
  case Nil
  then show ?case by simp
next
  case (Cons x es)
  obtain key v where x: "x = (key, v)" by (cases x)
  show ?case
  proof (cases "now - timestamp v > CACHE_TTL")
    case True
    have "sweep now (x # es) m =
            filter (\<lambda>p. key \<noteq> fst p \<and>
                     (\<forall>e'. (fst p, e') \<in> set es \<longrightarrow> \<not> now - timestamp e' > CACHE_TTL)) m"
      unfolding x using True by (simp add: Cons.IH AList.delete_eq split_def)
    also have "\<dots> = filter (\<lambda>p. \<forall>e'. (fst p, e') \<in> set (x # es)
                                   \<longrightarrow> \<not> now - timestamp e' > CACHE_TTL) m"
    proof (rule filter_cong [OF refl])
      fix p :: "string \<times> CacheEntry"
      show "(key \<noteq> fst p \<and> (\<forall>e'. (fst p, e') \<in> set es \<longrightarrow> \<not> now - timestamp e' > CACHE_TTL))
              = (\<forall>e'. (fst p, e') \<in> set (x # es) \<longrightarrow> \<not> now - timestamp e' > CACHE_TTL)"
        unfolding x using True by auto
    qed
    finally show ?thesis .
  next
    case False
    have "sweep now (x # es) m =
            filter (\<lambda>p. \<forall>e'. (fst p, e') \<in> set es \<longrightarrow> \<not> now - timestamp e' > CACHE_TTL) m"
      unfolding x using False by (simp add: Cons.IH)
    also have "\<dots> = filter (\<lambda>p. \<forall>e'. (fst p, e') \<in> set (x # es)
                                   \<longrightarrow> \<not> now - timestamp e' > CACHE_TTL) m"
    proof (rule filter_cong [OF refl])
      fix p :: "string \<times> CacheEntry"
      show "(\<forall>e'. (fst p, e') \<in> set es \<longrightarrow> \<not> now - timestamp e' > CACHE_TTL)
              = (\<forall>e'. (fst p, e') \<in> set (x # es) \<longrightarrow> \<not> now - timestamp e' > CACHE_TTL)"
        unfolding x using False by auto
    qed
    finally show ?thesis .
  qed
qed

lemma sweep_self:
  assumes "distinct (map fst m)"
  shows "sweep now m m = filter (\<lambda>(k, e). \<not> now - timestamp e > CACHE_TTL) m"
proof -
  have "filter (\<lambda>p. \<forall>e'. (fst p, e') \<in> set m \<longrightarrow> \<not> now - timestamp e' > CACHE_TTL) m
          = filter (\<lambda>(k, e). \<not> now - timestamp e > CACHE_TTL) m"
  proof (rule filter_cong [OF refl])
    fix p :: "string \<times> CacheEntry"
    assume p: "p \<in> set m"
    obtain k e where ke: "p = (k, e)" by (cases p)
    from p ke have kem: "(k, e) \<in> set m" by simp
    have same: "e' = e" if "(k, e') \<in> set m" for e'
      using assms that kem by (rule eq_key_imp_eq_value)
    have "(\<forall>e'. (k, e') \<in> set m \<longrightarrow> \<not> now - timestamp e' > CACHE_TTL)
               = (\<not> now - timestamp e > CACHE_TTL)"
      using kem same by blast
    then show "(\<forall>e'. (fst p, e') \<in> set m \<longrightarrow> \<not> now - timestamp e' > CACHE_TTL)
               = (case p of (k, e) \<Rightarrow> \<not> now - timestamp e > CACHE_TTL)"
      by (simp add: ke)
  qed
  then show ?thesis
    by (simp only: sweep_filter)
qed

lemma caching_Some_iff:
  "caching useCache cacheKey = Some key \<longleftrightarrow> useCache \<and> cacheKey = Some key \<and> key \<noteq> []"
  by (cases cacheKey) auto

lemma set_update_cases:
  "(k', e') \<in> set (AList.update k v al) \<Longrightarrow> (k', e') = (k, v) \<or> (k', e') \<in> set al"
  by (induction al) (auto split: if_splits)

lemma cache_inv_constructor: "cache_inv constructor"
  by (simp add: cache_inv_def constructor_def)

lemma cache_inv_saveToCache:
  assumes "cache_inv c" "key \<noteq> []" "truthy d"
  shows "cache_inv (saveToCache key d c w)"
proof -
  have "distinct (map fst (AList.update key \<lparr>data = d, timestamp = date_now w\<rparr> (cache c)))"
    using assms(1) by (simp add: cache_inv_def distinct_update)
  moreover have "k' \<noteq> [] \<and> truthy (data e')"
    if "(k', e') \<in> set (AList.update key \<lparr>data = d, timestamp = date_now w\<rparr> (cache c))"
    for k' e'
    using set_update_cases [OF that] assms by (auto simp: cache_inv_def)
  ultimately show ?thesis
    by (auto simp: cache_inv_def saveToCache_def)
qed

lemma executeWithFallback_state:
  "fst (snd (executeWithFallback c operation cacheKey useCache w)) = c \<or>
   (\<exists>key d w'. caching useCache cacheKey = Some key \<and> truthy d \<and>
      fst (snd (executeWithFallback c operation cacheKey useCache w)) = saveToCache key d c w')"
  by (auto simp: executeWithFallback_def Let_def
           split: option.splits prod.splits sum.splits)

lemma cache_inv_executeWithFallback:
  assumes "cache_inv c"
  shows "cache_inv (fst (snd (executeWithFallback c operation cacheKey useCache w)))"
  using executeWithFallback_state [of c operation cacheKey useCache w] assms
  by (auto simp: caching_Some_iff intro: cache_inv_saveToCache)

lemma cache_inv_clearExpiredCache:
  assumes "cache_inv c"
  shows "cache_inv (clearExpiredCache c w)"
proof -
  have d: "distinct (map fst (cache c))"
    using assms by (simp add: cache_inv_def)
  have "cache (clearExpiredCache c w) =
          filter (\<lambda>(key, e). \<not> date_now w - timestamp e > CACHE_TTL) (cache c)"
    by (simp add: clearExpiredCache_def sweep_self [OF d])
  then show ?thesis
    using assms by (auto simp: cache_inv_def distinct_map_filter)
qed

lemma getFromCache_inv:
  assumes "cache_inv c"
  shows "getFromCache c key True w =
           (case map_of (cache c) key of None \<Rightarrow> JNull | Some e \<Rightarrow> data e)"
    and "map_of (cache c) key = Some e \<Longrightarrow> key \<noteq> [] \<and> truthy (data e)"
proof -
  show "getFromCache c key True w =
           (case map_of (cache c) key of None \<Rightarrow> JNull | Some e \<Rightarrow> data e)"
    by (simp add: getFromCache_def split: option.splits)
  assume "map_of (cache c) key = Some e"
  then have "(key, e) \<in> set (cache c)" by (rule map_of_SomeD)
  with assms show "key \<noteq> [] \<and> truthy (data e)"
    by (auto simp: cache_inv_def)
qed

lemma stale_client_reached:
  "fst (snd (executeWithFallback constructor (resolving alice) (Some ''user_u1'') True (world_at 980)))
     = stale_client"
  by (simp add: executeWithFallback_def getFromCache_def stale_client_def resolving_def
        world_at_def served_def promise_race_def alice_def constructor_def saveToCache_def Let_def)

lemma cache_inv_stale_client: "cache_inv stale_client"
  by (simp add: cache_inv_def stale_client_def alice_def)

lemma new_Error_readable: "\<not> message_read_throws (new_Error m)"
  by (simp add: message_read_throws_def new_Error_def)

lemma timer_delay_of_every_instance: "setTimeout_delay (this_timeout c) = Some 1"
  by (simp add: this_timeout_def)

text \<open>
  What a call that is not short-circuited does: it invokes the operation once; a resolved
  value is returned; a rejection with \<^verbatim>\<open>undefined\<close> or \<^verbatim>\<open>null\<close> ends in the
  \<^verbatim>\<open>TypeError\<close> of the log statement; any other failure is replaced by the stored entry
  of the key when there is one, and is the call's rejection otherwise.
\<close>

lemma executeWithFallback_outcome:
  assumes "cache_inv c"
    and "\<forall>e. fallback_entry c cacheKey useCache = Some e
            \<longrightarrow> date_now w - timestamp e > CACHE_TTL"
  shows "snd (snd (executeWithFallback c operation cacheKey useCache w)) = snd (operation w) \<and>
         fst (executeWithFallback c operation cacheKey useCache w) =
           (case fst (operation w) of
              Resolves v \<Rightarrow> Inr v
            | Rejects err \<Rightarrow>
                if message_read_throws err then Inl TypeError
                else (case fallback_entry c cacheKey useCache of
                        Some e \<Rightarrow> Inr (data e) | None \<Rightarrow> Inl err)
            | TimerFires \<Rightarrow>
                (case fallback_entry c cacheKey useCache of
                   Some e \<Rightarrow> Inr (data e)
                 | None \<Rightarrow> Inl (new_Error ''Operation timeout'')))"
proof (cases "caching useCache cacheKey")
  case None
  then show ?thesis
    by (auto simp: executeWithFallback_def promise_race_def fallback_entry_def Let_def
                   new_Error_readable
             split: prod.splits race_input.splits)
next
  case (Some key)
  show ?thesis
  proof (cases "map_of (cache c) key")
    case None
    with Some show ?thesis
      by (auto simp: executeWithFallback_def promise_race_def fallback_entry_def
                     getFromCache_def Let_def new_Error_readable
               split: prod.splits race_input.splits)
  next
    case (Some e)
    from getFromCache_inv(2) [OF assms(1) Some] have "truthy (data e)" by simp
    moreover have "date_now w - timestamp e > CACHE_TTL"
      using assms(2) Some \<open>caching useCache cacheKey = Some key\<close>
      by (simp add: fallback_entry_def)
    ultimately show ?thesis
      using Some \<open>caching useCache cacheKey = Some key\<close>
      by (auto simp: executeWithFallback_def promise_race_def fallback_entry_def
                     getFromCache_def Let_def new_Error_readable
               split: prod.splits race_input.splits)
  qed
qed

text \<open>
  For a failure whose reason is not \<^verbatim>\<open>undefined\<close> or \<^verbatim>\<open>null\<close> (the timeout error is
  one), the call with caching on returns the stored entry of the key, of whatever age,
  and rejects with the reason itself when nothing is stored.
\<close>

lemma readable_failure_falls_back_or_propagates:
  assumes "cache_inv c"
    and "fst (operation w) = Rejects err \<and> \<not> message_read_throws err \<or>
         fst (operation w) = TimerFires \<and> err = new_Error ''Operation timeout''"
  shows "fst (executeWithFallback c operation (Some k) True w) =
           (case map_of (cache c) k of Some e \<Rightarrow> Inr (data e) | None \<Rightarrow> Inl err)
         \<and> fst (snd (executeWithFallback c operation (Some k) True w)) = c"
proof (cases "map_of (cache c) k")
  case None
  then show ?thesis
    using assms(2)
    by (auto simp: executeWithFallback_def getFromCache_def promise_race_def Let_def
                   new_Error_readable
             split: prod.splits)
next
  case (Some e)
  from getFromCache_inv(2) [OF assms(1) Some] have "k \<noteq> []" "truthy (data e)"
    by simp_all
  then show ?thesis
    using assms(2) Some
    by (auto simp: executeWithFallback_def getFromCache_def promise_race_def Let_def
                   new_Error_readable
             split: prod.splits)
qed

subsection \<open>The timer of the race\<close>

text \<open>
  Claim C1 has the operation race against a timeout that is a configuration constant of
  the instance. The instance built by the constructor has no such constant: the delay it
  hands to the timer is \<^verbatim>\<open>undefined\<close>, which the timer takes as 1 millisecond. An
  operation that resolves after 100 milliseconds, called without caching, therefore
  loses the race: the call rejects with \<^verbatim>\<open>Operation timeout\<close> after 1 millisecond.
\<close>

theorem undeclared_timeout_fires_first:
  "this_timeout constructor = JUndefined \<and>
   setTimeout_delay (this_timeout constructor) = Some 1 \<and>
   settling_after 100 (Resolves alice) 1 (world_at 0) = (TimerFires, served 1 (world_at 0)) \<and>
   executeWithFallback constructor (settling_after 100 (Resolves alice) 1) None False (world_at 0)
     = (Inl (new_Error ''Operation timeout''), constructor, served 1 (world_at 0))"
  by (simp add: this_timeout_def settling_after_def executeWithFallback_def promise_race_def
        message_read_throws_def new_Error_def Let_def)

subsection \<open>Cache hits\<close>

text \<open>
  Claim C2. In a cache the class has built, let a call with caching on and key \<open>k\<close>
  return the truthy value \<open>v\<close>. Then for a non-empty key an entry holding \<open>v\<close> is
  stored under \<open>k\<close>, and every later call with key \<open>k\<close> and caching on, made on an
  instance that still holds that entry and at a time when the entry's age is at most the
  TTL, returns \<open>v\<close> and leaves the instance and the world as they were, whatever the
  supplied operation is: the operation is not invoked. (Under the empty key nothing is
  ever stored, so there is no stored entry whose age could be at most the TTL.)
\<close>

theorem cached_value_short_circuits:
  assumes "cache_inv c"
    and "executeWithFallback c operation (Some k) True w = (Inr v, c', w')"
    and "truthy v"
  shows "(k \<noteq> [] \<longrightarrow> (\<exists>e. map_of (cache c') k = Some e \<and> data e = v)) \<and>
         (\<forall>e c'' operation2 w2.
            map_of (cache c') k = Some e \<and> map_of (cache c'') k = Some e \<and>
            date_now w2 - timestamp e \<le> CACHE_TTL
            \<longrightarrow> executeWithFallback c'' operation2 (Some k) True w2 = (Inr v, c'', w2))"
proof -
  have inv': "cache_inv c'"
    using cache_inv_executeWithFallback [OF assms(1), of operation "Some k" True w] assms(2)
    by simp
  have stored: "data e = v" if "map_of (cache c') k = Some e" for e
  proof -
    from getFromCache_inv(2) [OF inv' that] have k: "k \<noteq> []" by simp
    show ?thesis
      using assms(2,3) that k
      by (auto simp: executeWithFallback_def getFromCache_def saveToCache_def Let_def
                     update_conv'
               split: option.splits prod.splits sum.splits if_splits)
  qed
  have exists: "\<exists>e. map_of (cache c') k = Some e" if "k \<noteq> []"
    using assms(2,3) that
    by (auto simp: executeWithFallback_def getFromCache_def saveToCache_def Let_def
                   update_conv'
             split: option.splits prod.splits sum.splits if_splits)
  have hit: "executeWithFallback c'' operation2 (Some k) True w2 = (Inr v, c'', w2)"
    if "map_of (cache c') k = Some e" "map_of (cache c'') k = Some e"
       "date_now w2 - timestamp e \<le> CACHE_TTL"
    for e c'' operation2 w2
  proof -
    from getFromCache_inv(2) [OF inv' that(1)] have k: "k \<noteq> []" by simp
    have "getFromCache c'' k False w2 = v"
      using that stored [OF that(1)] by (simp add: getFromCache_def)
    then show ?thesis
      using k assms(3) by (simp add: executeWithFallback_def)
  qed
  from stored exists hit show ?thesis by blast
qed

theorem cached_value_short_circuits_witness:
  "cache_inv constructor \<and>
   executeWithFallback constructor (resolving alice) (Some ''user_u1'') True (world_at 980)
     = (Inr alice, stale_client, served 20 (world_at 980)) \<and>
   truthy alice \<and>
   map_of (cache stale_client) ''user_u1'' = Some \<lparr>data = alice, timestamp = 1000\<rparr> \<and>
   date_now (world_at 5000) - 1000 \<le> CACHE_TTL \<and>
   executeWithFallback stale_client timing_out (Some ''user_u1'') True (world_at 5000)
     = (Inr alice, stale_client, world_at 5000)"
proof -
  have inv: "cache_inv constructor"
    by (rule cache_inv_constructor)
  have first: "executeWithFallback constructor (resolving alice) (Some ''user_u1'') True (world_at 980)
     = (Inr alice, stale_client, served 20 (world_at 980))"
    by (simp add: executeWithFallback_def getFromCache_def stale_client_def resolving_def
          world_at_def served_def promise_race_def alice_def constructor_def saveToCache_def
          Let_def)
  have tr: "truthy alice"
    by (simp add: alice_def)
  have stored: "map_of (cache stale_client) ''user_u1'' = Some \<lparr>data = alice, timestamp = 1000\<rparr>"
    by (simp add: stale_client_def)
  have fresh: "date_now (world_at 5000) - timestamp \<lparr>data = alice, timestamp = 1000\<rparr> \<le> CACHE_TTL"
    by (simp add: world_at_def CACHE_TTL_def)
  from cached_value_short_circuits [OF inv first tr] stored fresh
  have "executeWithFallback stale_client timing_out (Some ''user_u1'') True (world_at 5000)
     = (Inr alice, stale_client, world_at 5000)"
    by blast
  with inv first tr stored fresh show ?thesis
    by simp
qed

subsection \<open>Failure: stale fallback or the original error\<close>

text \<open>
  Claim C3 has every failed call with caching on return the stored entry of its key, or
  reject with the original reason when nothing is stored. When the operation rejects
  with \<^verbatim>\<open>undefined\<close> or \<^verbatim>\<open>null\<close> the code does neither: with an entry stored under
  \<^verbatim>\<open>user_u1\<close> the call rejects with a \<^verbatim>\<open>TypeError\<close> and the entry is not returned;
  with nothing stored under \<^verbatim>\<open>user_u9\<close> the call rejects with the \<^verbatim>\<open>TypeError\<close>,
  not with the reason.
\<close>

theorem nullish_rejection_skips_fallback:
  "map_of (cache stale_client) ''user_u1'' = Some \<lparr>data = alice, timestamp = 1000\<rparr> \<and>
   rejecting JUndefined (world_at 400000) = (Rejects JUndefined, served 20 (world_at 400000)) \<and>
   executeWithFallback stale_client (rejecting JUndefined) (Some ''user_u1'') True (world_at 400000)
     = (Inl TypeError, stale_client, served 20 (world_at 400000)) \<and>
   map_of (cache stale_client) ''user_u9'' = None \<and>
   executeWithFallback stale_client (rejecting JNull) (Some ''user_u9'') True (world_at 400000)
     = (Inl TypeError, stale_client, served 20 (world_at 400000)) \<and>
   TypeError \<noteq> JNull \<and> TypeError \<noteq> alice"
  by (simp add: executeWithFallback_def getFromCache_def stale_client_def rejecting_def
        world_at_def served_def CACHE_TTL_def promise_race_def message_read_throws_def
        TypeError_def alice_def Let_def)

subsection \<open>Falsy results are not cached\<close>

text \<open>
  Claim C4. If a call with caching on and a key returns a falsy value, the instance is
  unchanged (nothing was written to the cache), and a subsequent call with the same key,
  at a clock reading not earlier than the first call's, invokes its operation: the world
  afterwards is the one that operation leaves, and if the operation resolves the call
  returns the operation's value.
\<close>

theorem falsy_result_not_cached:
  assumes "executeWithFallback c operation (Some k) True w = (Inr v, c', w')"
    and "\<not> truthy v"
    and "date_now w \<le> date_now w2"
  shows "c' = c \<and>
         snd (snd (executeWithFallback c' operation2 (Some k) useCache2 w2)) = snd (operation2 w2) \<and>
         (\<forall>v2. fst (operation2 w2) = Resolves v2
            \<longrightarrow> fst (executeWithFallback c' operation2 (Some k) useCache2 w2) = Inr v2)"
proof -
  have miss: "\<not> truthy (case caching True (Some k) of
                           Some key \<Rightarrow> getFromCache c key False w | None \<Rightarrow> JNull)"
    using assms(1,2) by (auto simp: executeWithFallback_def Let_def split: if_splits)
  have same: "c' = c"
    using assms(1,2) miss
    by (auto simp: executeWithFallback_def Let_def
             split: option.splits prod.splits sum.splits if_splits)
  have miss2: "\<not> truthy (case caching useCache2 (Some k) of
                           Some key \<Rightarrow> getFromCache c key False w2 | None \<Rightarrow> JNull)"
    using miss assms(3)
    by (auto simp: getFromCache_def Let_def split: option.splits if_splits)
  show ?thesis
    unfolding same using miss2
    by (auto simp: executeWithFallback_def promise_race_def Let_def
             split: option.splits prod.splits sum.splits race_input.splits)
qed

theorem falsy_result_not_cached_witness:
  "executeWithFallback constructor (resolving (JNum 0)) (Some ''count'') True (world_at 0)
     = (Inr (JNum 0), constructor, served 20 (world_at 0)) \<and>
   \<not> truthy (JNum 0) \<and>
   date_now (world_at 0) \<le> date_now (world_at 100) \<and>
   snd (snd (executeWithFallback constructor (resolving (JNum 7)) (Some ''count'') True (world_at 100)))
     = served 20 (world_at 100) \<and>
   requests (served 20 (world_at 100)) = 1 \<and>
   fst (executeWithFallback constructor (resolving (JNum 7)) (Some ''count'') True (world_at 100))
     = Inr (JNum 7)"
proof -
  have first: "executeWithFallback constructor (resolving (JNum 0)) (Some ''count'') True (world_at 0)
     = (Inr (JNum 0), constructor, served 20 (world_at 0))"
    by (simp add: executeWithFallback_def getFromCache_def resolving_def
          promise_race_def constructor_def Let_def)
  have falsy: "\<not> truthy (JNum 0)"
    by simp
  have later: "date_now (world_at 0) \<le> date_now (world_at 100)"
    by (simp add: world_at_def)
  have op2: "resolving (JNum 7) (world_at 100) = (Resolves (JNum 7), served 20 (world_at 100))"
    by (simp add: resolving_def)
  from falsy_result_not_cached [OF first falsy later, of "resolving (JNum 7)" True] op2
  have "snd (snd (executeWithFallback constructor (resolving (JNum 7)) (Some ''count'') True (world_at 100)))
     = served 20 (world_at 100)"
    and "fst (executeWithFallback constructor (resolving (JNum 7)) (Some ''count'') True (world_at 100))
     = Inr (JNum 7)"
    by simp_all
  with first falsy later show ?thesis
    by (simp add: served_def world_at_def)
qed

subsection \<open>The eviction sweep\<close>

text \<open>
  Claim C5. For every cache (a map: distinct keys) and every current time,
  \<^verbatim>\<open>clearExpiredCache\<close> leaves exactly the entries whose age does not exceed the TTL,
  unchanged and in their order, and removes the others; a second sweep at the same time
  changes nothing.
\<close>

theorem clearExpiredCache_exact_idempotent:
  assumes "distinct (map fst (cache c))"
  shows "cache (clearExpiredCache c w) =
           filter (\<lambda>(key, e). \<not> date_now w - timestamp e > CACHE_TTL) (cache c)
         \<and> clearExpiredCache (clearExpiredCache c w) w = clearExpiredCache c w"
proof -
  let ?keep = "\<lambda>(key :: string, e). \<not> date_now w - timestamp e > CACHE_TTL"
  have once: "cache (clearExpiredCache c w) = filter ?keep (cache c)"
    unfolding clearExpiredCache_def using sweep_self [OF assms] by simp
  have "distinct (map fst (filter ?keep (cache c)))"
    using assms by (rule distinct_map_filter)
  then have "sweep (date_now w) (filter ?keep (cache c)) (filter ?keep (cache c))
               = filter ?keep (filter ?keep (cache c))"
    by (rule sweep_self)
  also have "\<dots> = filter ?keep (cache c)"
    by simp
  finally have "cache (clearExpiredCache (clearExpiredCache c w) w) = cache (clearExpiredCache c w)"
    unfolding once unfolding clearExpiredCache_def using sweep_self [OF assms] by simp
  then have "clearExpiredCache (clearExpiredCache c w) w = clearExpiredCache c w"
    unfolding clearExpiredCache_def by simp
  with once show ?thesis by simp
qed

theorem clearExpiredCache_exact_idempotent_witness:
  "distinct (map fst (cache two_entry_client)) \<and>
   cache (clearExpiredCache two_entry_client (world_at 400000)) =
     [(''user_u2'', \<lparr>data = JStr ''bob'', timestamp = 200000\<rparr>)] \<and>
   clearExpiredCache (clearExpiredCache two_entry_client (world_at 400000)) (world_at 400000)
     = clearExpiredCache two_entry_client (world_at 400000)"
  using clearExpiredCache_exact_idempotent [of two_entry_client "world_at 400000"]
  by (simp add: two_entry_client_def world_at_def CACHE_TTL_def)

section \<open>Properties of the prober\<close>

subsection \<open>Auxiliary facts\<close>

lemma str_includes_sublist: "str_includes s pat \<longleftrightarrow> sublist pat s"
  by (induction s) (auto simp: sublist_Cons_right)

lemma testConnection_passes:
  assumes "probe_passes (fst (listUsers sdk client w))"
  shows "testConnection sdk client s w =
           (Inr (), recordAttempt True (date_now (snd (listUsers sdk client w)) - date_now w) None s,
            snd (listUsers sdk client w))"
  using assms
  by (auto simp: testConnection_def probe_passes_def Let_def
           split: prod.splits list_users_result.splits option.splits)

lemma testConnection_fails:
  assumes "\<not> probe_passes (fst (listUsers sdk client w))"
  shows "\<exists>e. testConnection sdk client s w = (Inl e, s, snd (listUsers sdk client w))"
  using assms
  by (auto simp: testConnection_def probe_passes_def Let_def
           split: prod.splits list_users_result.splits option.splits)

lemma recordAttempt_history:
  "connectionHistory (recordAttempt ok lat err s) =
     (if length (connectionHistory s) < 10 then connectionHistory s
      else tl (connectionHistory s)) @ [\<lparr>success = ok, latency = lat, error = err\<rparr>]"
  by (cases "connectionHistory s") (auto simp: recordAttempt_def Let_def)

lemma recordAttempt_remembered:
  "lastSuccessfulConfig (recordAttempt ok lat err s) = lastSuccessfulConfig s"
  by (simp add: recordAttempt_def Let_def)

lemma recordAttempt_length:
  "length (connectionHistory (recordAttempt ok lat err s)) =
     (if length (connectionHistory s) < 10 then Suc (length (connectionHistory s))
      else length (connectionHistory s))"
  by (cases "connectionHistory s") (auto simp: recordAttempt_history)

lemma try_configurations_step:
  assumes "candidates_fail sdk url key ((name, config) # rest) w"
  shows "\<exists>e w1. try_configurations sdk url key ((name, config) # rest) s w =
                  try_configurations sdk url key rest
                    (recordAttempt False 0 (Some (message e)) s) w1
               \<and> candidates_fail sdk url key rest w1"
proof (cases "createClient sdk url key config")
  case (Inl e)
  with assms show ?thesis by auto
next
  case (Inr client)
  with assms have fails: "\<not> probe_passes (fst (listUsers sdk client w))"
    and rest: "candidates_fail sdk url key rest (snd (listUsers sdk client w))"
    by simp_all
  from testConnection_fails [OF fails, of s] obtain e where
    "testConnection sdk client s w = (Inl e, s, snd (listUsers sdk client w))" ..
  with Inr rest show ?thesis by auto
qed

lemma try_configurations_all_fail:
  assumes "candidates_fail sdk url key cs w"
    and "length fs0 + length cs \<le> 10"
    and "connectionHistory s = kept @ fs0"
    and "\<forall>a\<in>set fs0. \<not> success a \<and> latency a = 0 \<and> error a \<noteq> None"
  shows "\<exists>kept' fs s' w'.
           try_configurations sdk url key cs s w = (Inl (Error all_failed_message), s', w') \<and>
           suffix kept' kept \<and>
           connectionHistory s' = kept' @ fs \<and>
           length fs = length fs0 + length cs \<and>
           (\<forall>a\<in>set fs. \<not> success a \<and> latency a = 0 \<and> error a \<noteq> None) \<and>
           lastSuccessfulConfig s' = lastSuccessfulConfig s"
  using assms
proof (induction cs arbitrary: s w kept fs0)
  case Nil
  then show ?case by auto
next
  case (Cons x rest)
  obtain name config where x: "x = (name, config)" by (cases x)
  from try_configurations_step [of sdk url key name config rest w s] Cons.prems(1)
  obtain e w1 where
    step: "try_configurations sdk url key (x # rest) s w =
             try_configurations sdk url key rest
               (recordAttempt False 0 (Some (message e)) s) w1"
    and rest: "candidates_fail sdk url key rest w1"
    unfolding x by blast
  let ?a = "\<lparr>success = False, latency = 0, error = Some (message e)\<rparr>"
  let ?s1 = "recordAttempt False 0 (Some (message e)) s"
  have "\<exists>kept1. suffix kept1 kept \<and> connectionHistory ?s1 = kept1 @ (fs0 @ [?a])"
  proof (cases "length (connectionHistory s) < 10")
    case True
    then have "connectionHistory ?s1 = kept @ (fs0 @ [?a])"
      by (simp add: recordAttempt_history Cons.prems(3))
    then show ?thesis by blast
  next
    case False
    with Cons.prems(2,3) have "kept \<noteq> []" by auto
    then have "tl (kept @ fs0) = tl kept @ fs0" by simp
    with False have "connectionHistory ?s1 = tl kept @ (fs0 @ [?a])"
      by (simp add: recordAttempt_history Cons.prems(3))
    moreover have "suffix (tl kept) kept"
      by (rule suffix_tl)
    ultimately show ?thesis by blast
  qed
  then obtain kept1 where k1: "suffix kept1 kept"
    and h1: "connectionHistory ?s1 = kept1 @ (fs0 @ [?a])"
    by blast
  have len: "length (fs0 @ [?a]) + length rest \<le> 10"
    using Cons.prems(2) by simp
  have failed: "\<forall>a\<in>set (fs0 @ [?a]). \<not> success a \<and> latency a = 0 \<and> error a \<noteq> None"
    using Cons.prems(4) by simp
  from Cons.IH [OF rest len h1 failed]
  obtain kept' fs s' w' where
    r: "try_configurations sdk url key rest ?s1 w1 = (Inl (Error all_failed_message), s', w')"
       "suffix kept' kept1" "connectionHistory s' = kept' @ fs"
       "length fs = length (fs0 @ [?a]) + length rest"
       "\<forall>a\<in>set fs. \<not> success a \<and> latency a = 0 \<and> error a \<noteq> None"
       "lastSuccessfulConfig s' = lastSuccessfulConfig ?s1"
    by blast
  from r(2) k1 have "suffix kept' kept" by (rule suffix_order.trans)
  moreover from r(4) have "length fs = length fs0 + length (x # rest)" by simp
  moreover from r(6) have "lastSuccessfulConfig s' = lastSuccessfulConfig s"
    by (simp add: recordAttempt_remembered)
  ultimately show ?case
    using step r(1,3,5) by auto
qed

lemma try_configurations_length:
  assumes "candidates_fail sdk url key cs w"
    and "length (connectionHistory s) \<le> 10"
  shows "length (connectionHistory (fst (snd (try_configurations sdk url key cs s w)))) =
           min 10 (length (connectionHistory s) + length cs)"
  using assms
proof (induction cs arbitrary: s w)
  case Nil
  then show ?case by simp
next
  case (Cons x rest)
  obtain name config where x: "x = (name, config)" by (cases x)
  from try_configurations_step [of sdk url key name config rest w s] Cons.prems(1)
  obtain e w1 where
    step: "try_configurations sdk url key (x # rest) s w =
             try_configurations sdk url key rest
               (recordAttempt False 0 (Some (message e)) s) w1"
    and rest: "candidates_fail sdk url key rest w1"
    unfolding x by blast
  let ?s1 = "recordAttempt False 0 (Some (message e)) s"
  have l1: "length (connectionHistory ?s1) =
              (if length (connectionHistory s) < 10 then Suc (length (connectionHistory s))
               else length (connectionHistory s))"
    by (rule recordAttempt_length)
  with Cons.prems(2) have "length (connectionHistory ?s1) \<le> 10" by simp
  from Cons.IH [OF rest this] l1 Cons.prems(2) show ?case
    unfolding step by (simp split: if_splits)
qed

lemma length_configurations: "length configurations = 4"
  by (simp add: configurations_def)

lemma getWorkingClient_reaches:
  assumes "reaches_candidates sdk url key s w w1"
  shows "getWorkingClient sdk url key s w =
           try_configurations sdk url key configurations s w1"
proof (cases "lastSuccessfulConfig s")
  case None
  with assms show ?thesis
    by (simp add: getWorkingClient_def reaches_candidates_def)
next
  case (Some remembered)
  show ?thesis
  proof (cases "createClient sdk url key remembered")
    case (Inl e)
    with assms Some show ?thesis
      by (simp add: getWorkingClient_def reaches_candidates_def)
  next
    case (Inr client)
    with assms Some have fails: "\<not> probe_passes (fst (listUsers sdk client w))"
      and w1: "w1 = snd (listUsers sdk client w)"
      by (simp_all add: reaches_candidates_def)
    from testConnection_fails [OF fails, of s] obtain e where
      "testConnection sdk client s w = (Inl e, s, snd (listUsers sdk client w))" ..
    with Some Inr w1 show ?thesis
      by (simp add: getWorkingClient_def)
  qed
qed

lemma foldl_latency:
  "foldl (\<lambda>sum a. sum + latency a) z xs = z + sum_list (map latency xs)"
  by (induction xs arbitrary: z) simp_all

lemma floor_half: "\<lfloor>1 / 2 :: rat\<rfloor> = 0"
  by (rule floor_unique) simp_all

lemma offline_candidates_fail:
  "candidates_fail offline url key cs w"
  by (induction cs arbitrary: w)
     (auto simp: offline_def answering_def build_def probe_passes_def)

lemma recordAttempt_capped:
  "length (connectionHistory s) \<le> 10
     \<Longrightarrow> length (connectionHistory (recordAttempt ok lat err s)) \<le> 10"
  by (simp add: recordAttempt_length)

lemma pow2_powi: "pow2 e = 2 powi e"
  by (simp add: pow2_def power_int_def power_divide inverse_eq_divide)

lemma pow2_pos: "0 < pow2 e"
  by (simp add: pow2_powi)

lemma pow2_Suc: "pow2 (e + 1) = 2 * pow2 e"
  by (simp add: pow2_powi power_int_add_1)

lemma pow2_pred: "pow2 (e - 1) = pow2 e / 2"
  using pow2_Suc [of "e - 1"] by simp

lemma binary_exponent_bounds:
  "0 < x \<Longrightarrow> pow2 (binary_exponent x) \<le> x \<and> x < pow2 (binary_exponent x + 1)"
proof (induction x rule: binary_exponent.induct)
  case (1 x)
  show ?case
  proof (cases "2 \<le> x")
    case True
    define e where "e = binary_exponent (x / 2)"
    from True "1.prems" "1.IH"(1) have "pow2 e \<le> x / 2 \<and> x / 2 < pow2 (e + 1)"
      unfolding e_def by simp
    moreover have "binary_exponent x = e + 1"
      unfolding e_def using True "1.prems" by (subst binary_exponent.simps) simp
    moreover have "pow2 (e + 1) = 2 * pow2 e" "pow2 (e + 1 + 1) = 2 * pow2 (e + 1)"
      by (rule pow2_Suc)+
    ultimately show ?thesis
      by (simp only:) linarith
  next
    case False
    show ?thesis
    proof (cases "x < 1")
      case True
      define e where "e = binary_exponent (x * 2)"
      from True False "1.prems" "1.IH"(2) have "pow2 e \<le> x * 2 \<and> x * 2 < pow2 (e + 1)"
        unfolding e_def by simp
      moreover have "binary_exponent x = e - 1"
        unfolding e_def using True False "1.prems" by (subst binary_exponent.simps) simp
      moreover have "pow2 (e - 1) = pow2 e / 2" "pow2 (e - 1 + 1) = pow2 e"
        "pow2 (e + 1) = 2 * pow2 e"
        by (simp_all add: pow2_pred pow2_Suc)
      ultimately show ?thesis
        by (simp only:) linarith
    next
      case nsmall: False
      have "binary_exponent x = 0"
        using nsmall False "1.prems" by (subst binary_exponent.simps) simp
      with nsmall False show ?thesis
        by (simp add: pow2_def)
    qed
  qed
qed

lemma round_ties_even_error: "\<bar>of_int (round_ties_even m) - m\<bar> \<le> 1 / 2"
proof -
  define f where "f = \<lfloor>m\<rfloor>"
  define d where "d = m - of_int f"
  have d: "0 \<le> d" "d < 1"
    unfolding d_def f_def by linarith+
  have r: "round_ties_even m =
             (if d < 1 / 2 then f else if 1 / 2 < d then f + 1 else if even f then f else f + 1)"
    by (simp add: round_ties_even_def Let_def f_def d_def)
  then consider "round_ties_even m = f" "d \<le> 1 / 2" | "round_ties_even m = f + 1" "1 / 2 \<le> d"
    by (cases "d < 1 / 2"; cases "1 / 2 < d"; cases "even f") auto
  then show ?thesis
  proof cases
    case 1
    then have "of_int (round_ties_even m) - m = - d"
      by (simp add: d_def)
    with 1(2) d show ?thesis by simp
  next
    case 2
    then have "of_int (round_ties_even m) - m = 1 - d"
      by (simp add: d_def)
    with 2(2) d show ?thesis by simp
  qed
qed

lemma to_double_error: "\<bar>to_double x - x\<bar> \<le> \<bar>x\<bar> / 2 ^ 53"
proof (cases "x = 0")
  case True
  then show ?thesis by (simp add: to_double_def)
next
  case False
  define a where "a = \<bar>x\<bar>"
  define e where "e = binary_exponent a"
  define ulp where "ulp = pow2 (e - 52)"
  define r where "r = round_ties_even (a / ulp)"
  have apos: "0 < a" using False by (simp add: a_def)
  have upos: "0 < ulp" by (simp add: ulp_def pow2_pos)
  have ulp: "ulp = pow2 e / 2 ^ 52"
    by (simp add: ulp_def pow2_powi power_int_diff)
  have "pow2 e \<le> a"
    using binary_exponent_bounds [OF apos] by (simp add: e_def)
  then have ulp_le: "ulp \<le> a / 2 ^ 52"
    by (simp add: ulp divide_right_mono)
  have td: "to_double x = sgn x * (of_int r * ulp)"
    using False by (simp add: to_double_def Let_def a_def e_def ulp_def r_def)
  have "x = sgn x * a"
    by (simp add: a_def sgn_mult_abs)
  then have "to_double x - x = sgn x * (of_int r * ulp - a)"
    using td by (simp add: right_diff_distrib)
  then have "\<bar>to_double x - x\<bar> = \<bar>of_int r * ulp - a\<bar>"
    using False by (simp add: abs_mult abs_sgn_eq)
  also have "of_int r * ulp - a = (of_int r - a / ulp) * ulp"
    using upos by (simp add: left_diff_distrib)
  also have "\<bar>\<dots>\<bar> = \<bar>of_int r - a / ulp\<bar> * ulp"
    using upos by (simp add: abs_mult)
  also have "\<dots> \<le> (1 / 2) * ulp"
    using round_ties_even_error [of "a / ulp"] upos
    by (intro mult_right_mono) (simp_all add: r_def)
  also have "\<dots> \<le> (1 / 2) * (a / 2 ^ 52)"
    using ulp_le by simp
  also have "\<dots> = \<bar>x\<bar> / 2 ^ 53"
    by (simp add: a_def)
  finally show ?thesis .
qed

lemma percentage_error:
  assumes "0 \<le> r" "r \<le> 1"
  shows "\<bar>to_double (to_double r * 100) - r * 100\<bar> \<le> 1 / 2 ^ 45"
proof -
  define a where "a = to_double r"
  define y where "y = a * 100"
  define t where "t = to_double y"
  have "\<bar>a - r\<bar> \<le> r / 2 ^ 53"
    using to_double_error [of r] assms(1) by (simp add: a_def)
  also have "\<dots> \<le> 1 / 2 ^ 53"
    using assms(2) by (simp add: divide_right_mono)
  finally have "\<bar>a - r\<bar> \<le> 1 / 2 ^ 53" .
  then have ea: "r - 1 / 2 ^ 53 \<le> a" "a \<le> r + 1 / 2 ^ 53"
    unfolding abs_diff_le_iff by blast+
  with assms have ybound: "\<bar>y\<bar> \<le> 101"
    by (simp add: y_def abs_le_iff)
  have "\<bar>t - y\<bar> \<le> \<bar>y\<bar> / 2 ^ 53"
    unfolding t_def by (rule to_double_error)
  also have "\<dots> \<le> 101 / 2 ^ 53"
    using ybound by (simp add: divide_right_mono)
  finally have "\<bar>t - y\<bar> \<le> 101 / 2 ^ 53" .
  then have ey: "y - 101 / 2 ^ 53 \<le> t" "t \<le> y + 101 / 2 ^ 53"
    unfolding abs_diff_le_iff by blast+
  have "r * 100 - 1 / 2 ^ 45 \<le> t"
    using ea(1) ey(1) by (simp add: y_def)
  moreover have "t \<le> r * 100 + 1 / 2 ^ 45"
    using ea(2) ey(2) by (simp add: y_def)
  ultimately have "\<bar>t - r * 100\<bar> \<le> 1 / 2 ^ 45"
    unfolding abs_diff_le_iff by blast
  then show ?thesis
    by (simp add: t_def y_def a_def)
qed


lemma round_ties_even_of_int: "round_ties_even (of_int z) = z"
  by (simp add: round_ties_even_def Let_def)

lemma to_double_half_integer:
  assumes "\<bar>j\<bar> < 2 ^ 53"
  shows "to_double (of_int j / 2) = of_int j / 2"
proof (cases "j = 0")
  case True
  then show ?thesis by (simp add: to_double_def)
next
  case False
  define x :: rat where "x = of_int j / 2"
  define a where "a = \<bar>x\<bar>"
  define e where "e = binary_exponent a"
  have a: "a = of_int \<bar>j\<bar> / 2"
    by (simp add: a_def x_def)
  from False have "1 \<le> \<bar>j\<bar>" by simp
  then have "(1 :: rat) \<le> of_int \<bar>j\<bar>"
    by (metis of_int_1 of_int_le_iff)
  then have alow: "1 / 2 \<le> a"
    unfolding a by simp
  from assms have "of_int \<bar>j\<bar> < (2 ^ 53 :: rat)"
    by (metis of_int_less_iff of_int_numeral of_int_power)
  then have ahigh: "a < 2 ^ 52"
    unfolding a by simp
  from alow have apos: "0 < a" by simp
  from binary_exponent_bounds [OF apos]
  have b: "pow2 e \<le> a" "a < pow2 (e + 1)"
    by (simp_all add: e_def)
  have e_hi: "e \<le> 51"
  proof (rule ccontr)
    assume "\<not> e \<le> 51"
    then have "52 \<le> e" by simp
    then have "(2 :: rat) powi 52 \<le> 2 powi e"
      by (intro power_int_increasing) simp_all
    with b(1) ahigh show False
      by (simp add: pow2_powi)
  qed
  have e_lo: "- 1 \<le> e"
  proof (rule ccontr)
    assume "\<not> - 1 \<le> e"
    then have "e + 1 \<le> - 1" by simp
    then have "(2 :: rat) powi (e + 1) \<le> 2 powi (- 1)"
      by (intro power_int_increasing) simp_all
    with b(2) alow show False
      by (simp add: pow2_powi power_int_minus)
  qed
  define k where "k = nat (51 - e)"
  define ulp where "ulp = pow2 (e - 52)"
  have upos: "0 < ulp" by (simp add: ulp_def pow2_pos)
  have "ulp * 2 ^ k = 2 powi (e - 52) * 2 powi (51 - e)"
    using e_hi by (simp add: ulp_def pow2_powi k_def power_int_def)
  also have "\<dots> = 2 powi (- 1)"
    by (simp flip: power_int_add)
  finally have half: "ulp * 2 ^ k = 1 / 2"
    by (simp add: power_int_minus)
  then have "a = of_int \<bar>j\<bar> * (ulp * 2 ^ k)"
    by (simp add: a)
  then have "a / ulp = of_int \<bar>j\<bar> * 2 ^ k"
    using upos by (simp add: field_simps)
  also have "\<dots> = of_int (\<bar>j\<bar> * 2 ^ k)"
    by simp
  finally have m: "a / ulp = of_int (\<bar>j\<bar> * 2 ^ k)" .
  have xne: "x \<noteq> 0"
    using False by (simp add: x_def)
  have "to_double x = sgn x * of_int (round_ties_even (a / ulp)) * ulp"
    using xne by (simp add: to_double_def Let_def a_def e_def ulp_def)
  also have "\<dots> = sgn x * (of_int \<bar>j\<bar> * (ulp * 2 ^ k))"
    unfolding m round_ties_even_of_int by simp
  also have "\<dots> = sgn x * a"
    by (simp add: half a)
  also have "\<dots> = x"
    by (simp add: a_def sgn_mult_abs)
  finally show ?thesis
    by (simp add: x_def)
qed

lemma Math_round_double_quotient:
  assumes "0 < n" "\<bar>S\<bar> < 2 ^ 52"
  shows "\<lfloor>to_double (rat_of_int S / rat_of_nat n) + 1 / 2\<rfloor>
           = \<lfloor>rat_of_int S / rat_of_nat n + 1 / 2\<rfloor>"
proof -
  define q where "q = rat_of_int S / rat_of_nat n"
  define k where "k = \<lfloor>q + 1 / 2\<rfloor>"
  define t where "t = to_double q"
  define N where "N = rat_of_nat n"
  have Npos: "1 \<le> N"
    using assms(1) by (simp add: N_def)
  have qN: "q * N = rat_of_int S"
    using Npos by (simp add: q_def N_def)
  have k1: "rat_of_int k \<le> q + 1 / 2" and k2: "q + 1 / 2 < rat_of_int k + 1"
    unfolding k_def by linarith+
  have Sb: "\<bar>rat_of_int S\<bar> < 2 ^ 52"
    using assms(2) by (metis of_int_abs of_int_less_iff of_int_numeral of_int_power)
  have "\<bar>q\<bar> * N = \<bar>rat_of_int S\<bar>"
    using qN Npos by (metis abs_mult abs_of_nonneg order_trans zero_le_one)
  with Sb have qb: "\<bar>q\<bar> * N < 2 ^ 52"
    by simp
  have "\<bar>t - q\<bar> \<le> \<bar>q\<bar> / 2 ^ 53"
    unfolding t_def by (rule to_double_error)
  then have "\<bar>t - q\<bar> * N \<le> \<bar>q\<bar> * N / 2 ^ 53"
    using Npos by (simp add: field_simps)
  also have "\<dots> < 2 ^ 52 / 2 ^ 53"
    by (rule divide_strict_right_mono [OF qb]) simp
  finally have err: "\<bar>t - q\<bar> * N < 1 / 2"
    by simp
  have "\<bar>(t - q) * N\<bar> = \<bar>t - q\<bar> * N"
    using Npos by (simp add: abs_mult)
  with err have "\<bar>(t - q) * N\<bar> < 1 / 2"
    by (simp only:)
  then have err_up: "(t - q) * N < 1 / 2" and err_lo: "- (1 / 2) < (t - q) * N"
    unfolding abs_less_iff by linarith+
  \<comment> \<open>the numerators are integers\<close>
  have up_int: "2 * S + int n < (2 * k + 2) * int n"
  proof -
    from k2 have "(q + 1 / 2) * N < (rat_of_int k + 1) * N"
      using Npos by (intro mult_strict_right_mono) simp_all
    then have "2 * rat_of_int S + N < (2 * rat_of_int k + 2) * N"
      using qN by (simp add: algebra_simps)
    then have "rat_of_int (2 * S + int n) < rat_of_int ((2 * k + 2) * int n)"
      by (simp add: N_def)
    then show ?thesis
      by (simp only: of_int_less_iff)
  qed
  have lo_int: "(2 * k - 1) * int n \<le> 2 * S"
  proof -
    from k1 have "rat_of_int k * N \<le> (q + 1 / 2) * N"
      using Npos by (intro mult_right_mono) simp_all
    then have "(2 * rat_of_int k - 1) * N \<le> 2 * rat_of_int S"
      using qN by (simp add: algebra_simps)
    then have "rat_of_int ((2 * k - 1) * int n) \<le> rat_of_int (2 * S)"
      by (simp add: N_def)
    then show ?thesis
      by (simp only: of_int_le_iff)
  qed
  have upper: "t + 1 / 2 < rat_of_int k + 1"
  proof -
    from up_int have "2 * S + int n + 1 \<le> (2 * k + 2) * int n" by simp
    then have "rat_of_int (2 * S + int n + 1) \<le> rat_of_int ((2 * k + 2) * int n)"
      by (simp only: of_int_le_iff)
    then have "2 * (q * N) + N + 1 \<le> (2 * rat_of_int k + 2) * N"
      by (simp add: N_def qN [unfolded N_def])
    then have "(q + 1 / 2) * N + 1 / 2 \<le> (rat_of_int k + 1) * N"
      by (simp add: algebra_simps)
    moreover note err_up
    ultimately have "(t + 1 / 2) * N < (rat_of_int k + 1) * N"
      by (simp add: algebra_simps)
    then show ?thesis
      using Npos by (simp add: mult_less_cancel_right)
  qed
  have lower: "rat_of_int k \<le> t + 1 / 2"
  proof (cases "(2 * k - 1) * int n = 2 * S")
    case True
    then have "rat_of_int ((2 * k - 1) * int n) = rat_of_int (2 * S)"
      by simp
    then have "(2 * rat_of_int k - 1) * N = 2 * (q * N)"
      by (simp add: N_def qN [unfolded N_def])
    then have "(2 * rat_of_int k - 1) * N = (2 * q) * N"
      by (simp only: mult.assoc)
    moreover have "N \<noteq> 0"
      using Npos by simp
    ultimately have "(2 * rat_of_int k - 1) = 2 * q"
      by simp
    then have qhalf: "q = rat_of_int (2 * k - 1) / 2"
      by simp
    have "\<bar>rat_of_int (2 * k - 1)\<bar> = 2 * \<bar>q\<bar>"
      unfolding qhalf by simp
    also have "\<dots> \<le> 2 * (\<bar>q\<bar> * N)"
      using Npos by (simp add: mult_le_cancel_left1)
    also have "\<dots> < 2 ^ 53"
      using qb by (simp add: mult.commute)
    finally have "\<bar>2 * k - 1\<bar> < 2 ^ 53"
      by (metis of_int_abs of_int_less_iff of_int_numeral of_int_power)
    from to_double_half_integer [OF this] have "t = q"
      by (simp add: t_def qhalf)
    with k1 show ?thesis by simp
  next
    case False
    with lo_int have "(2 * k - 1) * int n + 1 \<le> 2 * S" by simp
    then have "rat_of_int ((2 * k - 1) * int n + 1) \<le> rat_of_int (2 * S)"
      by (simp only: of_int_le_iff)
    then have "(2 * rat_of_int k - 1) * N + 1 \<le> 2 * (q * N)"
      by (simp add: N_def qN [unfolded N_def])
    then have "rat_of_int k * N + 1 / 2 \<le> (q + 1 / 2) * N"
      by (simp add: algebra_simps)
    moreover note err_lo
    ultimately have "rat_of_int k * N < (t + 1 / 2) * N"
      by (simp add: algebra_simps)
    then show ?thesis
      using Npos by (simp add: mult_less_cancel_right)
  qed
  from lower upper have "\<lfloor>t + 1 / 2\<rfloor> = k"
    by (rule floor_unique)
  then show ?thesis
    by (simp add: t_def k_def q_def)
qed


subsection \<open>The remembered configuration is tried first\<close>

text \<open>
  Claim C6. When a remembered configuration exists, a client can be built from it and
  its probe passes, \<^verbatim>\<open>getWorkingClient\<close> returns that client; the manager has recorded
  the one successful attempt and still remembers the configuration; the world is the one
  left by that single request. No candidate is attempted: the outcome is the same for
  every library that agrees on this one client and this one request, whatever it would
  do for the candidates.
\<close>

theorem remembered_configuration_reused:
  assumes "lastSuccessfulConfig s = Some remembered"
    and "createClient sdk url key remembered = Inr client"
    and "probe_passes (fst (listUsers sdk client w))"
  shows "getWorkingClient sdk url key s w =
           (Inr client,
            recordAttempt True (date_now (snd (listUsers sdk client w)) - date_now w) None s,
            snd (listUsers sdk client w)) \<and>
         lastSuccessfulConfig (fst (snd (getWorkingClient sdk url key s w))) = Some remembered \<and>
         (\<forall>sdk'. createClient sdk' url key remembered = Inr client \<and>
                 listUsers sdk' client w = listUsers sdk client w
                 \<longrightarrow> getWorkingClient sdk' url key s w = getWorkingClient sdk url key s w)"
proof -
  have run: "getWorkingClient lib url key s w =
           (Inr client,
            recordAttempt True (date_now (snd (listUsers sdk client w)) - date_now w) None s,
            snd (listUsers sdk client w))"
    if "createClient lib url key remembered = Inr client"
       "listUsers lib client w = listUsers sdk client w"
    for lib :: "'a supabase_js"
  proof -
    from that(2) assms(3) have "probe_passes (fst (listUsers lib client w))" by simp
    from testConnection_passes [OF this, of s] that assms(1) show ?thesis
      by (simp add: getWorkingClient_def)
  qed
  from run [of sdk] assms(2)
  have here: "getWorkingClient sdk url key s w =
           (Inr client,
            recordAttempt True (date_now (snd (listUsers sdk client w)) - date_now w) None s,
            snd (listUsers sdk client w))"
    by simp
  moreover from here assms(1)
  have "lastSuccessfulConfig (fst (snd (getWorkingClient sdk url key s w))) = Some remembered"
    by (simp add: recordAttempt_remembered)
  moreover have "getWorkingClient sdk' url key s w = getWorkingClient sdk url key s w"
    if "createClient sdk' url key remembered = Inr client"
       "listUsers sdk' client w = listUsers sdk client w" for sdk'
    using run [OF that] here by simp
  ultimately show ?thesis by blast
qed

theorem remembered_configuration_reused_witness:
  "lastSuccessfulConfig remembering = Some keep_alive_options \<and>
   createClient online ''https://db.example.co'' ''service-key'' keep_alive_options
     = Inr keep_alive_options \<and>
   probe_passes (fst (listUsers online keep_alive_options (world_at 0))) \<and>
   getWorkingClient online ''https://db.example.co'' ''service-key'' remembering (world_at 0)
     = (Inr keep_alive_options,
        \<lparr>connectionHistory = [\<lparr>success = True, latency = 30, error = None\<rparr>],
         lastSuccessfulConfig = Some keep_alive_options\<rparr>,
        \<lparr>date_now = 30, requests = 1\<rparr>)"
proof -
  have r: "lastSuccessfulConfig remembering = Some keep_alive_options"
    by (simp add: remembering_def)
  have c: "createClient online ''https://db.example.co'' ''service-key'' keep_alive_options
     = Inr keep_alive_options"
    by (simp add: online_def answering_def build_def)
  have p: "probe_passes (fst (listUsers online keep_alive_options (world_at 0)))"
    by (simp add: online_def answering_def probe_passes_def)
  have l: "listUsers online keep_alive_options (world_at 0) = (Responds None, served 30 (world_at 0))"
    by (simp add: online_def answering_def)
  have ra: "recordAttempt True 30 None remembering =
        \<lparr>connectionHistory = [\<lparr>success = True, latency = 30, error = None\<rparr>],
         lastSuccessfulConfig = Some keep_alive_options\<rparr>"
    by (simp add: recordAttempt_def remembering_def Let_def)
  from remembered_configuration_reused [OF r c p] l ra
  have "getWorkingClient online ''https://db.example.co'' ''service-key'' remembering (world_at 0)
     = (Inr keep_alive_options,
        \<lparr>connectionHistory = [\<lparr>success = True, latency = 30, error = None\<rparr>],
         lastSuccessfulConfig = Some keep_alive_options\<rparr>,
        \<lparr>date_now = 30, requests = 1\<rparr>)"
    by (simp add: served_def world_at_def)
  with r c p show ?thesis
    by simp
qed

subsection \<open>All candidates fail\<close>

text \<open>
  Claim C7. If the call reaches the candidate loop and every one of the candidates fails
  in turn, \<^verbatim>\<open>getWorkingClient\<close> throws the terminal error and returns no client. The
  history afterwards is a suffix of the history before (the cap of ten drops the oldest
  records) followed by exactly as many records as there are candidates, four, each
  marked failed, with latency 0 and an error message. The remembered configuration is
  not changed. From a history within the cap, the history afterwards has
  \<open>min 10 (length + 4)\<close> records.
\<close>

theorem all_candidates_fail_terminal:
  assumes "reaches_candidates sdk url key s w w1"
    and "candidates_fail sdk url key configurations w1"
  shows "\<exists>kept failed s' w'.
           getWorkingClient sdk url key s w = (Inl (Error all_failed_message), s', w') \<and>
           connectionHistory s' = kept @ failed \<and>
           suffix kept (connectionHistory s) \<and>
           length failed = length configurations \<and> length configurations = 4 \<and>
           (\<forall>a\<in>set failed. \<not> success a \<and> latency a = 0 \<and> error a \<noteq> None) \<and>
           lastSuccessfulConfig s' = lastSuccessfulConfig s \<and>
           (length (connectionHistory s) \<le> 10 \<longrightarrow>
              length (connectionHistory s') = min 10 (length (connectionHistory s) + 4))"
proof -
  have loop: "getWorkingClient sdk url key s w =
                try_configurations sdk url key configurations s w1"
    using assms(1) by (rule getWorkingClient_reaches)
  have "length ([] :: ConnectionAttempt list) + length configurations \<le> 10"
    by (simp add: length_configurations)
  moreover have "connectionHistory s = connectionHistory s @ []" by simp
  moreover have "\<forall>a\<in>set ([] :: ConnectionAttempt list).
                   \<not> success a \<and> latency a = 0 \<and> error a \<noteq> None" by simp
  ultimately obtain kept failed s' w' where
    r: "try_configurations sdk url key configurations s w1 = (Inl (Error all_failed_message), s', w')"
       "suffix kept (connectionHistory s)" "connectionHistory s' = kept @ failed"
       "length failed = length ([] :: ConnectionAttempt list) + length configurations"
       "\<forall>a\<in>set failed. \<not> success a \<and> latency a = 0 \<and> error a \<noteq> None"
       "lastSuccessfulConfig s' = lastSuccessfulConfig s"
    using try_configurations_all_fail [OF assms(2)] by blast
  have "length (connectionHistory s') = min 10 (length (connectionHistory s) + 4)"
    if "length (connectionHistory s) \<le> 10"
    using try_configurations_length [OF assms(2) that] r(1)
    by (simp add: length_configurations)
  with loop r show ?thesis
    by (auto simp: length_configurations)
qed

theorem all_candidates_fail_terminal_witness:
  "reaches_candidates offline ''https://db.example.co'' ''service-key'' getInstance
     (world_at 0) (world_at 0) \<and>
   candidates_fail offline ''https://db.example.co'' ''service-key'' configurations (world_at 0) \<and>
   fst (getWorkingClient offline ''https://db.example.co'' ''service-key'' getInstance (world_at 0))
     = Inl (Error all_failed_message) \<and>
   length (connectionHistory (fst (snd
     (getWorkingClient offline ''https://db.example.co'' ''service-key'' getInstance (world_at 0)))))
     = 4"
proof -
  have r: "reaches_candidates offline ''https://db.example.co'' ''service-key'' getInstance
     (world_at 0) (world_at 0)"
    by (simp add: reaches_candidates_def getInstance_def)
  have f: "candidates_fail offline ''https://db.example.co'' ''service-key'' configurations (world_at 0)"
    by (rule offline_candidates_fail)
  have e: "connectionHistory getInstance = []"
    by (simp add: getInstance_def)
  from all_candidates_fail_terminal [OF r f] e show ?thesis
    using r f by auto
qed

subsection \<open>Statistics never divide by zero into a fault\<close>

text \<open>
  Claim C8. \<^verbatim>\<open>getConnectionStats\<close> yields finite numbers in every state. On an empty
  history the success rate and the average latency are 0; without a successful attempt
  the average latency is 0. Otherwise the success rate is the percentage of successful
  attempts as double arithmetic computes it (the quotient of the two counts rounded to a
  double, times 100, rounded again), which is within \<open>2\<^sup>-\<^sup>4\<^sup>5\<close> of the exact
  percentage; and the average latency is \<^verbatim>\<open>Math.round\<close> of the double quotient of the
  latency sum of the successful attempts only by their number, which is the exact mean
  rounded to the nearest integer whenever the sum is below \<open>2\<^sup>5\<^sup>2\<close> in magnitude.
\<close>

theorem getConnectionStats_no_division_fault:
  "(connectionHistory s = [] \<longrightarrow>
      successRate (getConnectionStats s) = Num 0 \<and>
      averageLatency (getConnectionStats s) = Num 0) \<and>
   (filter success (connectionHistory s) = [] \<longrightarrow>
      averageLatency (getConnectionStats s) = Num 0) \<and>
   (connectionHistory s \<noteq> [] \<longrightarrow>
      successRate (getConnectionStats s) =
        Num (to_double (to_double (rat_of_nat (length (filter success (connectionHistory s)))
                                   / rat_of_nat (length (connectionHistory s))) * 100)) \<and>
      \<bar>to_double (to_double (rat_of_nat (length (filter success (connectionHistory s)))
                               / rat_of_nat (length (connectionHistory s))) * 100)
         - rat_of_nat (length (filter success (connectionHistory s)))
           / rat_of_nat (length (connectionHistory s)) * 100\<bar> \<le> 1 / 2 ^ 45) \<and>
   (filter success (connectionHistory s) \<noteq> [] \<longrightarrow>
      averageLatency (getConnectionStats s) =
        Num (of_int \<lfloor>to_double
                        (rat_of_int (sum_list (map latency (filter success (connectionHistory s))))
                         / rat_of_nat (length (filter success (connectionHistory s)))) + 1 / 2\<rfloor>) \<and>
      (\<bar>sum_list (map latency (filter success (connectionHistory s)))\<bar> < 2 ^ 52 \<longrightarrow>
         averageLatency (getConnectionStats s) =
           Num (of_int \<lfloor>rat_of_int (sum_list (map latency (filter success (connectionHistory s))))
                          / rat_of_nat (length (filter success (connectionHistory s))) + 1 / 2\<rfloor>))) \<and>
   (\<exists>q r. successRate (getConnectionStats s) = Num q \<and>
          averageLatency (getConnectionStats s) = Num r)"
proof -
  let ?h = "connectionHistory s"
  let ?ok = "filter success ?h"
  let ?ratio = "rat_of_nat (length ?ok) / rat_of_nat (length ?h)"
  let ?mean = "rat_of_int (sum_list (map latency ?ok)) / rat_of_nat (length ?ok)"
  have rate: "successRate (getConnectionStats s) =
                (if ?h = [] then Num 0 else Num (to_double (to_double ?ratio * 100)))"
    by (simp add: getConnectionStats_def Let_def double_divide_def double_times_def)
  have avg: "averageLatency (getConnectionStats s) =
               (if ?ok = [] then Num 0 else Num (of_int \<lfloor>to_double ?mean + 1 / 2\<rfloor>))"
    by (simp add: getConnectionStats_def Let_def double_divide_def or_zero_def Math_round_def
          foldl_latency floor_half)
  have "length ?ok \<le> length ?h"
    by (rule length_filter_le)
  then have close: "\<bar>to_double (to_double ?ratio * 100) - ?ratio * 100\<bar> \<le> 1 / 2 ^ 45"
    if "?h \<noteq> []"
    using that by (intro percentage_error) (simp_all add: divide_le_eq_1)
  have mean: "\<lfloor>to_double ?mean + 1 / 2\<rfloor> = \<lfloor>?mean + 1 / 2\<rfloor>"
    if "?ok \<noteq> []" "\<bar>sum_list (map latency ?ok)\<bar> < 2 ^ 52"
    using that by (intro Math_round_double_quotient) simp_all
  show ?thesis
    unfolding rate avg using close mean by auto
qed

lemma sample_rate: "to_double (to_double (2 / 3) * 100) = 2345624805922133 / 35184372088832"
  by code_simp

lemma sample_mean: "to_double (25 / 2) = 25 / 2"
  by code_simp

theorem getConnectionStats_no_division_fault_witness:
  "connectionHistory getInstance = [] \<and>
   successRate (getConnectionStats getInstance) = Num 0 \<and>
   averageLatency (getConnectionStats getInstance) = Num 0 \<and>
   connectionHistory sample_history \<noteq> [] \<and>
   filter success (connectionHistory sample_history) \<noteq> [] \<and>
   \<bar>sum_list (map latency (filter success (connectionHistory sample_history)))\<bar> < 2 ^ 52 \<and>
   successRate (getConnectionStats sample_history) = Num (2345624805922133 / 35184372088832) \<and>
   averageLatency (getConnectionStats sample_history) = Num 13"
  using getConnectionStats_no_division_fault [of getInstance]
    getConnectionStats_no_division_fault [of sample_history]
  by (simp add: getInstance_def sample_history_def sample_rate sample_mean)

subsection \<open>An empty result is a passed probe\<close>

text \<open>
  Claim C9. When the probe's request answers with an error: if the error's message
  contains \<^verbatim>\<open>No users\<close> (the empty result), \<^verbatim>\<open>testConnection\<close> does not throw and
  the last record of the history is a successful attempt with the measured latency; if
  the message does not contain it, \<^verbatim>\<open>testConnection\<close> throws that same error and
  leaves the manager unchanged.
\<close>

theorem testConnection_empty_result_is_success:
  assumes "listUsers sdk client w = (Responds (Some e), w')"
  shows "(str_includes (message e) ''No users'' \<longrightarrow>
            testConnection sdk client s w =
              (Inr (), recordAttempt True (date_now w' - date_now w) None s, w') \<and>
            last (connectionHistory (recordAttempt True (date_now w' - date_now w) None s)) =
              \<lparr>success = True, latency = date_now w' - date_now w, error = None\<rparr>) \<and>
         (\<not> str_includes (message e) ''No users'' \<longrightarrow>
            testConnection sdk client s w = (Inl e, s, w'))"
  using assms
  by (simp add: testConnection_def Let_def recordAttempt_history)

theorem testConnection_empty_result_is_success_witness:
  "listUsers empty_project keep_alive_options (world_at 0)
     = (Responds (Some (Error ''No users found'')), served 30 (world_at 0)) \<and>
   str_includes (message (Error ''No users found'')) ''No users'' \<and>
   testConnection empty_project keep_alive_options getInstance (world_at 0)
     = (Inr (),
        \<lparr>connectionHistory = [\<lparr>success = True, latency = 30, error = None\<rparr>],
         lastSuccessfulConfig = None\<rparr>,
        served 30 (world_at 0)) \<and>
   listUsers refusing keep_alive_options (world_at 0)
     = (Responds (Some (Error ''Invalid API key'')), served 30 (world_at 0)) \<and>
   \<not> str_includes (message (Error ''Invalid API key'')) ''No users'' \<and>
   testConnection refusing keep_alive_options getInstance (world_at 0)
     = (Inl (Error ''Invalid API key''), getInstance, served 30 (world_at 0))"
proof -
  have a: "listUsers empty_project keep_alive_options (world_at 0)
     = (Responds (Some (Error ''No users found'')), served 30 (world_at 0))"
    by (simp add: empty_project_def answering_def)
  have b: "listUsers refusing keep_alive_options (world_at 0)
     = (Responds (Some (Error ''Invalid API key'')), served 30 (world_at 0))"
    by (simp add: refusing_def answering_def)
  have ia: "str_includes (message (Error ''No users found'')) ''No users''"
    by simp
  have ib: "\<not> str_includes (message (Error ''Invalid API key'')) ''No users''"
    by simp
  have lat: "date_now (served 30 (world_at 0)) - date_now (world_at 0) = 30"
    by (simp add: served_def world_at_def)
  from testConnection_empty_result_is_success [OF a, of getInstance] ia lat
  have ta: "testConnection empty_project keep_alive_options getInstance (world_at 0)
     = (Inr (), recordAttempt True 30 None getInstance, served 30 (world_at 0))"
    by simp
  have ra: "recordAttempt True 30 None getInstance =
        \<lparr>connectionHistory = [\<lparr>success = True, latency = 30, error = None\<rparr>],
         lastSuccessfulConfig = None\<rparr>"
    by (simp add: recordAttempt_def getInstance_def Let_def)
  from testConnection_empty_result_is_success [OF b, of getInstance] ib
  have tb: "testConnection refusing keep_alive_options getInstance (world_at 0)
     = (Inl (Error ''Invalid API key''), getInstance, served 30 (world_at 0))"
    by simp
  from a b ia ib ta ra tb show ?thesis
    by simp
qed

subsection \<open>A failed remembered configuration leaves no record\<close>

text \<open>
  Claim C10. When a remembered configuration exists and the attempt with it fails (its
  client cannot be built, or its probe does not pass), the candidate loop starts from
  the unchanged manager: the failed probe returns the manager as it was, with the same
  history, so every failed record of the call is appended inside the candidate loop.
\<close>

theorem remembered_failure_not_recorded:
  assumes "lastSuccessfulConfig s = Some remembered"
    and "reaches_candidates sdk url key s w w1"
  shows "getWorkingClient sdk url key s w =
           try_configurations sdk url key configurations s w1 \<and>
         (\<forall>client. createClient sdk url key remembered = Inr client \<longrightarrow>
            fst (snd (testConnection sdk client s w)) = s \<and>
            connectionHistory (fst (snd (testConnection sdk client s w))) = connectionHistory s)"
proof -
  have "fst (snd (testConnection sdk client s w)) = s"
    if "createClient sdk url key remembered = Inr client" for client
  proof -
    from assms that have "\<not> probe_passes (fst (listUsers sdk client w))"
      by (simp add: reaches_candidates_def)
    from testConnection_fails [OF this, of s] show ?thesis by auto
  qed
  with getWorkingClient_reaches [OF assms(2)] show ?thesis by simp
qed

theorem remembered_failure_not_recorded_witness:
  "lastSuccessfulConfig remembering = Some keep_alive_options \<and>
   reaches_candidates offline ''https://db.example.co'' ''service-key'' remembering
     (world_at 0) (served 5 (world_at 0)) \<and>
   createClient offline ''https://db.example.co'' ''service-key'' keep_alive_options
     = Inr keep_alive_options \<and>
   connectionHistory (fst (snd (testConnection offline keep_alive_options remembering (world_at 0))))
     = [] \<and>
   getWorkingClient offline ''https://db.example.co'' ''service-key'' remembering (world_at 0)
     = try_configurations offline ''https://db.example.co'' ''service-key'' configurations
         remembering (served 5 (world_at 0))"
proof -
  have r: "lastSuccessfulConfig remembering = Some keep_alive_options"
    by (simp add: remembering_def)
  have c: "createClient offline ''https://db.example.co'' ''service-key'' keep_alive_options
     = Inr keep_alive_options"
    by (simp add: offline_def answering_def build_def)
  have rc: "reaches_candidates offline ''https://db.example.co'' ''service-key'' remembering
     (world_at 0) (served 5 (world_at 0))"
    by (simp add: reaches_candidates_def remembering_def offline_def answering_def build_def
          probe_passes_def)
  have h: "connectionHistory remembering = []"
    by (simp add: remembering_def)
  from remembered_failure_not_recorded [OF r rc] c h r rc show ?thesis
    by simp
qed

end
